theory Spec2Isabelle
  imports Main "HOL-Library.Word"
begin

unbundle bit_operations_syntax

section \<open>The firmware of the USB power switch (firmware/main.c)\<close>

text \<open>
  The firmware is one function, \<open>main\<close>: a set-up part and an endless loop. Each pass of
  the loop reads two things from the hardware, whether the watchdog timer has timed out
  (\<open>WDT_TIMEDOUT()\<close>) and the pin register \<open>PINB\<close>, and updates eight local variables of
  type \<open>uint8_t\<close> and the two registers \<open>PORTB\<close> and \<open>DDRB\<close>. The model is a record of
  these ten bytes and one function per block of the loop body, composed in the order of
  the source. The two hardware reads are the inputs of a pass.
\<close>

type_synonym u8 = "8 word"

record mcu =
  now :: u8
  btnState :: u8
  btnTime :: u8
  flagTriggered :: u8
  flagTrigTime :: u8
  flagSet :: u8
  powerOn :: u8
  debounceOk :: u8
  PORTB :: u8
  DDRB :: u8

subsection \<open>Bit numbers and macros (lines 17 to 42)\<close>

text \<open>
  The bit numbers come from avr-libc's \<open>avr/io.h\<close>, which is not part of the repository:
  \<open>PORTBn\<close>, \<open>PINBn\<close> and \<open>DDBn\<close> are \<open>n\<close>, as the pin list in \<open>main\<close> says (B0 and B1
  the two LED outputs, B2 the button, B3 the enable output, B4 the fault flag), and
  \<open>_BV(n)\<close> is \<open>1 << n\<close>.
\<close>

definition BV :: "nat \<Rightarrow> u8" where
  "BV n = push_bit n 1"

definition PORTB0 :: nat where "PORTB0 = 0"
definition PORTB1 :: nat where "PORTB1 = 1"
definition PORTB2 :: nat where "PORTB2 = 2"
definition PORTB3 :: nat where "PORTB3 = 3"
definition PORTB4 :: nat where "PORTB4 = 4"
definition PINB2 :: nat where "PINB2 = 2"
definition PINB4 :: nat where "PINB4 = 4"
definition DDB0 :: nat where "DDB0 = 0"
definition DDB1 :: nat where "DDB1 = 1"
definition DDB3 :: nat where "DDB3 = 3"
definition DDB4 :: nat where "DDB4 = 4"

definition LED_OFF :: u8 where "LED_OFF = 0"
definition LED_RED :: u8 where "LED_RED = BV PORTB0"
definition LED_GREEN :: u8 where "LED_GREEN = BV PORTB1"
definition LED_MASK :: u8 where "LED_MASK = NOT (BV PORTB0 OR BV PORTB1)"

definition PIN_BUTTON :: u8 where "PIN_BUTTON = BV PINB2"
definition PIN_FLAG :: u8 where "PIN_FLAG = BV PINB4"

text \<open>C's \<open>!x\<close> on a byte: 1 when \<open>x\<close> is 0, else 0.\<close>

definition lnot :: "u8 \<Rightarrow> u8" where
  "lnot x = (if x = 0 then 1 else 0)"

definition LEDSET :: "u8 \<Rightarrow> mcu \<Rightarrow> mcu" where
  "LEDSET state s = s\<lparr>PORTB := (PORTB s AND LED_MASK) OR state\<rparr>"

definition POWERON :: "mcu \<Rightarrow> mcu" where
  "POWERON s = s\<lparr>PORTB := PORTB s AND NOT (BV PORTB3)\<rparr>"

definition POWEROFF :: "mcu \<Rightarrow> mcu" where
  "POWEROFF s = s\<lparr>PORTB := PORTB s OR BV PORTB3\<rparr>"

definition FLAGSET :: "mcu \<Rightarrow> mcu" where
  "FLAGSET s =
     (let s1 = s\<lparr>PORTB := PORTB s AND NOT (BV PORTB4)\<rparr>
      in s1\<lparr>DDRB := DDRB s1 OR BV DDB4\<rparr>)"

definition FLAGCLEAR :: "mcu \<Rightarrow> mcu" where
  "FLAGCLEAR s =
     (let s1 = s\<lparr>DDRB := DDRB s AND NOT (BV DDB4)\<rparr>
      in s1\<lparr>PORTB := PORTB s1 OR BV PORTB4\<rparr>)"

subsection \<open>Set-up (lines 69 to 96)\<close>

text \<open>The power-on flash: \<open>n\<close> rounds of red then green. The delays are not modelled.\<close>

primrec flash :: "nat \<Rightarrow> mcu \<Rightarrow> mcu" where
  "flash 0 s = s"
| "flash (Suc n) s = flash n (LEDSET LED_GREEN (LEDSET LED_RED s))"

text \<open>
  \<open>main_init p d\<close> is the state on entry to the loop when \<open>PORTB\<close> and \<open>DDRB\<close> held \<open>p\<close>
  and \<open>d\<close> when \<open>main\<close> started (both are 0 after a reset of the chip).
\<close>

definition main_init :: "u8 \<Rightarrow> u8 \<Rightarrow> mcu" where
  "main_init p d =
     LEDSET LED_OFF (flash 4
       \<lparr>now = 0, btnState = 0, btnTime = 0, flagTriggered = 0, flagTrigTime = 0,
        flagSet = 0, powerOn = 0, debounceOk = 1,
        PORTB = p OR (BV PORTB2 OR BV PORTB3 OR BV PORTB4),
        DDRB = d OR (BV DDB0 OR BV DDB1 OR BV DDB3)\<rparr>)"

definition reset_state :: mcu where
  "reset_state = main_init 0 0"

subsection \<open>The loop body (lines 102 to 172)\<close>

text \<open>Lines 103 to 107: the tick. \<open>wdt\<close> is what \<open>WDT_TIMEDOUT()\<close> returns in this pass.\<close>

definition tick_step :: "bool \<Rightarrow> mcu \<Rightarrow> mcu" where
  "tick_step wdt s = (if wdt then s\<lparr>now := now s + 1\<rparr> else s)"

text \<open>Lines 110 to 112: the two samples taken from \<open>PINB\<close>; both pins are active low.\<close>

definition btnStateNow :: "u8 \<Rightarrow> u8" where
  "btnStateNow pinb = lnot (pinb AND PIN_BUTTON)"

definition flagStateNow :: "u8 \<Rightarrow> u8" where
  "flagStateNow pinb = lnot (pinb AND PIN_FLAG)"

text \<open>The elapsed time of both timing tests: \<open>(uint8_t)(now - t)\<close>.\<close>

definition elapsed :: "u8 \<Rightarrow> u8 \<Rightarrow> u8" where
  "elapsed n t = n - t"

text \<open>Lines 115 to 137: the button.\<close>

definition button_step :: "u8 \<Rightarrow> mcu \<Rightarrow> mcu" where
  "button_step bsn s =
     (let s1 =
        (if bsn \<noteq> 0 then
           (let s2 =
              (if btnState s = 0 then
                 (if debounceOk s \<noteq> 0 then
                    (let s3 = s\<lparr>debounceOk := 0\<rparr>
                     in if flagTriggered s3 \<noteq> 0 then s3\<lparr>flagTriggered := 0\<rparr>
                        else s3\<lparr>powerOn := lnot (powerOn s3)\<rparr>)
                  else s)
               else s)
            in s2\<lparr>btnTime := now s2\<rparr>)
         else
           (if 3 \<le> elapsed (now s) (btnTime s) then s\<lparr>debounceOk := 1\<rparr> else s))
      in s1\<lparr>btnState := bsn\<rparr>)"

text \<open>Lines 139 to 151: the fault flag is sampled asserted.\<close>

definition fault_step :: "u8 \<Rightarrow> mcu \<Rightarrow> mcu" where
  "fault_step fsn s =
     (if fsn \<noteq> 0 then
        (let s1 = (if flagSet s = 0 then s\<lparr>flagTrigTime := now s\<rparr> else s);
             s2 = s1\<lparr>flagTriggered := 1\<rparr>;
             s3 = s2\<lparr>powerOn := 0\<rparr>;
             s4 = FLAGSET s3
         in s4\<lparr>flagSet := 1\<rparr>)
      else s)"

text \<open>Lines 153 to 157: the end of the pulse on the fault line.\<close>

definition pulse_end_step :: "mcu \<Rightarrow> mcu" where
  "pulse_end_step s =
     (if flagTriggered s \<noteq> 0 \<and> flagSet s \<noteq> 0 \<and> 2 \<le> elapsed (now s) (flagTrigTime s)
      then (FLAGCLEAR s)\<lparr>flagSet := 0\<rparr>
      else s)"

text \<open>Lines 160 to 172: power and LEDs.\<close>

definition output_step :: "mcu \<Rightarrow> mcu" where
  "output_step s =
     (if powerOn s \<noteq> 0 then POWERON (LEDSET LED_GREEN s)
      else
        (let s1 = POWEROFF s
         in if flagTriggered s1 \<noteq> 0 then LEDSET LED_RED s1 else LEDSET LED_OFF s1))"

text \<open>
  The state at line 138, after the button block; the state at line 159, where the
  outputs are about to be driven; and one whole pass.
  The sleep at the end of the pass (lines 175 to 184) changes none of the ten bytes.
\<close>

definition after_button :: "bool \<times> u8 \<Rightarrow> mcu \<Rightarrow> mcu" where
  "after_button i s = button_step (btnStateNow (snd i)) (tick_step (fst i) s)"

definition before_output :: "bool \<times> u8 \<Rightarrow> mcu \<Rightarrow> mcu" where
  "before_output i s = pulse_end_step (fault_step (flagStateNow (snd i)) (after_button i s))"

definition loop_body :: "bool \<times> u8 \<Rightarrow> mcu \<Rightarrow> mcu" where
  "loop_body i s = output_step (before_output i s)"

text \<open>A finite number of passes, one per input, the first input first.\<close>

primrec run :: "(bool \<times> u8) list \<Rightarrow> mcu \<Rightarrow> mcu" where
  "run [] s = s"
| "run (i # is) s = run is (loop_body i s)"

subsection \<open>What is observed\<close>

text \<open>
  The LED pair is bits 0 and 1 of \<open>PORTB\<close>, the enable output bit 3 (active low), and
  the fault line is driven low when bit 4 is an output (\<open>DDRB\<close>) holding 0 (\<open>PORTB\<close>),
  released when bit 4 is an input with its pull-up on.
\<close>

definition led :: "mcu \<Rightarrow> u8" where
  "led s = PORTB s AND NOT LED_MASK"

definition power_active :: "mcu \<Rightarrow> bool" where
  "power_active s = (\<not> bit (PORTB s) PORTB3)"

definition fault_line_low :: "mcu \<Rightarrow> bool" where
  "fault_line_low s = (bit (DDRB s) DDB4 \<and> \<not> bit (PORTB s) PORTB4)"

definition fault_line_released :: "mcu \<Rightarrow> bool" where
  "fault_line_released s = (\<not> bit (DDRB s) DDB4 \<and> bit (PORTB s) PORTB4)"

subsection \<open>The fault pin read back\<close>

text \<open>
  B4 is one pin: the input that line 112 samples and the output that \<open>FLAGSET\<close> drives
  low (lines 30 to 35 and the pin list at line 67: input with pull-up that switches to
  output low, open drain). While the firmware holds the pin low, \<open>PINB\<close> reads bit 4 as
  0, whatever the load switch on the other side does; the loop looks at no other bit that
  the firmware drives. \<open>PINB_read s ext\<close> is the value of \<open>PINB\<close> in state \<open>s\<close> when the
  outside presents the levels \<open>ext\<close>; \<open>pass\<close> is one pass of the loop on such levels, and
  \<open>samples\<close> turns a list of outside levels into the list of inputs that the passes
  read, from state \<open>s\<close> on.
\<close>

definition PINB_read :: "mcu \<Rightarrow> u8 \<Rightarrow> u8" where
  "PINB_read s ext = (if fault_line_low s then ext AND NOT PIN_FLAG else ext)"

definition pass :: "bool \<times> u8 \<Rightarrow> mcu \<Rightarrow> mcu" where
  "pass e s = loop_body (fst e, PINB_read s (snd e)) s"

primrec samples :: "(bool \<times> u8) list \<Rightarrow> mcu \<Rightarrow> (bool \<times> u8) list" where
  "samples [] s = []"
| "samples (e # es) s = (fst e, PINB_read s (snd e)) # samples es (pass e s)"

subsection \<open>Inputs and events of a pass\<close>

text \<open>
  A value of \<open>PINB\<close> with the button pressed or not and the fault flag asserted or not
  (both active low); the other bits read 0.
\<close>

definition pins :: "bool \<Rightarrow> bool \<Rightarrow> u8" where
  "pins btn flt = (if btn then 0 else PIN_BUTTON) OR (if flt then 0 else PIN_FLAG)"

text \<open>The inputs of a pass, as the loop reads them.\<close>

definition pressed :: "bool \<times> u8 \<Rightarrow> bool" where
  "pressed i = (btnStateNow (snd i) \<noteq> 0)"

definition fault_asserted :: "bool \<times> u8 \<Rightarrow> bool" where
  "fault_asserted i = (flagStateNow (snd i) \<noteq> 0)"

text \<open>
  A press is accepted in a pass when the three nested tests of lines 115 to 119 all
  succeed: pressed now, released at the last pass, and \<open>debounceOk\<close> set.
\<close>

definition accepted :: "bool \<times> u8 \<Rightarrow> mcu \<Rightarrow> bool" where
  "accepted i s = (pressed i \<and> btnState s = 0 \<and> debounceOk s \<noteq> 0)"

text \<open>
  The test of line 153 succeeds in this pass: it is evaluated on the state that the
  button block and the fault block leave.
\<close>

definition pulse_ends :: "bool \<times> u8 \<Rightarrow> mcu \<Rightarrow> bool" where
  "pulse_ends i s =
     (let m = fault_step (flagStateNow (snd i)) (after_button i s)
      in flagTriggered m \<noteq> 0 \<and> flagSet m \<noteq> 0 \<and> 2 \<le> elapsed (now m) (flagTrigTime m))"

text \<open>The number of ticks (increments of \<open>now\<close>) in a list of passes.\<close>

primrec ticks :: "(bool \<times> u8) list \<Rightarrow> nat" where
  "ticks [] = 0"
| "ticks (i # is) = (if fst i then 1 else 0) + ticks is"

text \<open>The number of accepted presses in a list of passes that starts in state \<open>s\<close>.\<close>

primrec presses :: "(bool \<times> u8) list \<Rightarrow> mcu \<Rightarrow> nat" where
  "presses [] s = 0"
| "presses (i # is) s = (if accepted i s then 1 else 0) + presses is (loop_body i s)"


text \<open>
  The output mapping of the specification (section 4.4), in its words: the LED state and
  whether the power-enable output is active, from \<open>powerEnabled\<close> and \<open>faultTriggered\<close>.
\<close>

definition output_map :: "bool \<Rightarrow> bool \<Rightarrow> u8 \<times> bool" where
  "output_map powerEnabled faultTriggered =
     (if powerEnabled then (LED_GREEN, True)
      else if faultTriggered then (LED_RED, False)
      else (LED_OFF, False))"

subsection \<open>Input sequences\<close>

text \<open>
  The inputs of single passes: with a tick (\<open>_tick\<close>) or in the same tick as the pass
  before (\<open>_now\<close>), and with the button pressed, the fault flag asserted, or neither.
\<close>

definition press_now :: "bool \<times> u8" where "press_now = (False, pins True False)"
definition fault_now :: "bool \<times> u8" where "fault_now = (False, pins False True)"
definition press_tick :: "bool \<times> u8" where "press_tick = (True, pins True False)"
definition fault_tick :: "bool \<times> u8" where "fault_tick = (True, pins False True)"
definition idle_tick :: "bool \<times> u8" where "idle_tick = (True, pins False False)"
definition press_fault_tick :: "bool \<times> u8" where "press_fault_tick = (True, pins True True)"

definition idle_ticks :: "nat \<Rightarrow> (bool \<times> u8) list" where
  "idle_ticks n = replicate n idle_tick"

text \<open>
  Scenario A of the specification: a press at tick 0, a release at tick 1, a press at
  tick 2, a release at tick 3 and a press at tick 4. The first pass has no tick, so it
  runs at \<open>now = 0\<close>; each later pass has one.
\<close>

definition scenario_A :: "(bool \<times> u8) list" where
  "scenario_A = [press_now, idle_tick, press_tick, idle_tick, press_tick]"

text \<open>The same up to tick 3, then released at ticks 4 and 5 and pressed at tick 6.\<close>

definition scenario_A_later :: "(bool \<times> u8) list" where
  "scenario_A_later =
     [press_now, idle_tick, press_tick, idle_tick, idle_tick, idle_tick, press_tick]"

text \<open>
  Scenario B: the power is switched on by a press, the fault flag is asserted in a second
  pass at tick 0, and it stays asserted at ticks 1, 2 and 3, one pass per tick.
\<close>

definition scenario_B :: "(bool \<times> u8) list" where
  "scenario_B = [press_now, fault_now, fault_tick, fault_tick, fault_tick]"


text \<open>
  A fault at tick 0 and nothing at ticks 1 and 2; then a press at tick 3, nothing at
  ticks 4, 5 and 6, and a press at tick 7.
\<close>

definition fault_then_idle :: "(bool \<times> u8) list" where
  "fault_then_idle = [fault_now, idle_tick, idle_tick]"

definition ack_then_toggle :: "(bool \<times> u8) list" where
  "ack_then_toggle = [press_tick, idle_tick, idle_tick, idle_tick, press_tick]"

text \<open>
  Scenario D: the button was last seen pressed at tick 254, and \<open>debounceOk\<close> is clear.
\<close>

definition scenario_D_state :: mcu where
  "scenario_D_state =
     reset_state\<lparr>now := 254, btnState := 1, btnTime := 254, debounceOk := 0\<rparr>"

text \<open>A pulse that starts at tick 255: the fault flag is sampled asserted at that tick.\<close>

definition scenario_D_pulse_state :: mcu where
  "scenario_D_pulse_state = loop_body fault_now (reset_state\<lparr>now := 255\<rparr>)"

section \<open>The fields after each block\<close>

lemmas bitno_defs = PORTB0_def PORTB1_def PORTB2_def PORTB3_def PORTB4_def PINB2_def PINB4_def
  DDB0_def DDB1_def DDB3_def DDB4_def

lemmas led_defs = LED_OFF_def LED_RED_def LED_GREEN_def LED_MASK_def

lemmas macro_defs = LEDSET_def POWERON_def POWEROFF_def FLAGSET_def FLAGCLEAR_def

lemmas step_defs = tick_step_def button_step_def after_button_def

lemmas fault_defs = before_output_def pulse_end_step_def fault_step_def macro_defs Let_def
  fault_asserted_def

lemma bit_BV: "bit (BV m) n \<longleftrightarrow> n = m \<and> m < 8"
  by (auto simp add: BV_def bit_simps)

lemma lnot_simps: "lnot 0 = 1" "(lnot x \<noteq> 0) = (x = 0)" "(lnot x = 0) = (x \<noteq> 0)"
  by (simp_all add: lnot_def)

lemma pressed_pins: "pressed (w, pins b f) = b"
  by (simp add: pressed_def btnStateNow_def pins_def PIN_BUTTON_def PIN_FLAG_def lnot_def
      BV_def bitno_defs)

lemma fault_pins: "fault_asserted (w, pins b f) = f"
  by (simp add: fault_asserted_def flagStateNow_def pins_def PIN_BUTTON_def PIN_FLAG_def
      lnot_def BV_def bitno_defs)

subsection \<open>After the button block\<close>

lemma ab_now: "now (after_button i s) = (if fst i then now s + 1 else now s)"
  by (simp add: step_defs Let_def)

lemma ab_btnState: "btnState (after_button i s) = btnStateNow (snd i)"
  by (simp add: step_defs Let_def)

lemma ab_btnTime:
  "btnTime (after_button i s) = (if pressed i then now (after_button i s) else btnTime s)"
  by (simp add: step_defs Let_def pressed_def)

lemma ab_debounceOk:
  "debounceOk (after_button i s) =
     (if pressed i then (if accepted i s then 0 else debounceOk s)
      else if 3 \<le> elapsed (now (after_button i s)) (btnTime s) then 1 else debounceOk s)"
  by (simp add: step_defs Let_def pressed_def accepted_def)

lemma ab_flagTriggered:
  "flagTriggered (after_button i s) = (if accepted i s then 0 else flagTriggered s)"
  by (simp add: step_defs Let_def pressed_def accepted_def)

lemma ab_powerOn:
  "powerOn (after_button i s) =
     (if accepted i s \<and> flagTriggered s = 0 then lnot (powerOn s) else powerOn s)"
  by (simp add: step_defs Let_def pressed_def accepted_def)

lemma ab_rest:
  "flagSet (after_button i s) = flagSet s"
  "flagTrigTime (after_button i s) = flagTrigTime s"
  "PORTB (after_button i s) = PORTB s"
  "DDRB (after_button i s) = DDRB s"
  by (simp_all add: step_defs Let_def)

subsection \<open>Before the outputs are driven\<close>

lemma bo_now: "now (before_output i s) = (if fst i then now s + 1 else now s)"
  by (simp add: fault_defs ab_now)

lemma bo_btn:
  "btnState (before_output i s) = btnState (after_button i s)"
  "btnTime (before_output i s) = btnTime (after_button i s)"
  "debounceOk (before_output i s) = debounceOk (after_button i s)"
  by (simp_all add: fault_defs)

lemma bo_flagTriggered:
  "flagTriggered (before_output i s) =
     (if fault_asserted i then 1 else if accepted i s then 0 else flagTriggered s)"
  by (simp add: fault_defs ab_flagTriggered)

lemma bo_powerOn:
  "powerOn (before_output i s) =
     (if fault_asserted i then 0
      else if accepted i s \<and> flagTriggered s = 0 then lnot (powerOn s) else powerOn s)"
  by (simp add: fault_defs ab_powerOn)

lemma bo_flagTrigTime:
  "flagTrigTime (before_output i s) =
     (if fault_asserted i \<and> flagSet s = 0 then now (before_output i s) else flagTrigTime s)"
  by (simp add: fault_defs ab_rest ab_now)

lemma pulse_ends_iff:
  "pulse_ends i s \<longleftrightarrow>
     flagTriggered (before_output i s) \<noteq> 0 \<and> (fault_asserted i \<or> flagSet s \<noteq> 0) \<and>
     2 \<le> elapsed (now (before_output i s)) (flagTrigTime (before_output i s))"
  by (simp add: pulse_ends_def fault_defs ab_rest ab_now ab_flagTriggered)

lemma bo_flagSet:
  "flagSet (before_output i s) =
     (if pulse_ends i s then 0 else if fault_asserted i then 1 else flagSet s)"
  by (simp add: pulse_ends_def fault_defs ab_rest ab_now ab_flagTriggered)

lemma bo_DDRB4:
  "bit (DDRB (before_output i s)) DDB4 =
     (if pulse_ends i s then False else if fault_asserted i then True else bit (DDRB s) DDB4)"
  by (simp add: pulse_ends_def fault_defs ab_rest ab_now ab_flagTriggered
      bit_simps bit_BV bitno_defs)

lemma bo_PORTB4:
  "bit (PORTB (before_output i s)) PORTB4 =
     (if pulse_ends i s then True else if fault_asserted i then False else bit (PORTB s) PORTB4)"
  by (simp add: pulse_ends_def fault_defs ab_rest ab_now ab_flagTriggered
      bit_simps bit_BV bitno_defs)

subsection \<open>After the output block\<close>

lemma os_vars:
  "now (output_step s) = now s"
  "btnState (output_step s) = btnState s"
  "btnTime (output_step s) = btnTime s"
  "debounceOk (output_step s) = debounceOk s"
  "flagTriggered (output_step s) = flagTriggered s"
  "flagTrigTime (output_step s) = flagTrigTime s"
  "flagSet (output_step s) = flagSet s"
  "powerOn (output_step s) = powerOn s"
  "DDRB (output_step s) = DDRB s"
  by (simp_all add: output_step_def macro_defs Let_def)

lemma os_PORTB4: "bit (PORTB (output_step s)) PORTB4 = bit (PORTB s) PORTB4"
  by (simp add: output_step_def macro_defs Let_def led_defs bit_simps bit_BV bitno_defs)

lemma led_LEDSET: "led (LEDSET x s) = x AND NOT LED_MASK"
  unfolding led_def LEDSET_def
  by (rule bit_word_eqI) (auto simp add: bit_simps)

lemma led_codes:
  "LED_RED AND NOT LED_MASK = LED_RED"
  "LED_GREEN AND NOT LED_MASK = LED_GREEN"
  "LED_OFF AND NOT LED_MASK = LED_OFF"
  unfolding led_defs
  by (rule bit_word_eqI; auto simp add: bit_simps bit_BV)+

lemma led_distinct: "LED_RED \<noteq> LED_GREEN" "LED_RED \<noteq> LED_OFF" "LED_GREEN \<noteq> LED_OFF"
  unfolding led_defs BV_def bitno_defs by simp_all

lemma led_POWER: "led (POWERON s) = led s" "led (POWEROFF s) = led s"
  unfolding led_def POWERON_def POWEROFF_def led_defs
  by (rule bit_word_eqI; auto simp add: bit_simps bit_BV bitno_defs)+

lemma os_led:
  "led (output_step s) =
     (if powerOn s \<noteq> 0 then LED_GREEN else if flagTriggered s \<noteq> 0 then LED_RED else LED_OFF)"
  by (simp add: output_step_def Let_def led_POWER led_LEDSET led_codes POWEROFF_def)

lemma os_power: "power_active (output_step s) = (powerOn s \<noteq> 0)"
  by (simp add: output_step_def power_active_def macro_defs Let_def led_defs
      bit_simps bit_BV bitno_defs)

subsection \<open>After one pass\<close>

lemma lb_now: "now (loop_body i s) = (if fst i then now s + 1 else now s)"
  by (simp add: loop_body_def os_vars bo_now)

lemma lb_btnState: "btnState (loop_body i s) = btnStateNow (snd i)"
  by (simp add: loop_body_def os_vars bo_btn ab_btnState)

lemma lb_btnTime:
  "btnTime (loop_body i s) = (if pressed i then now (loop_body i s) else btnTime s)"
  by (simp add: loop_body_def os_vars bo_btn bo_now ab_btnTime ab_now)

lemma lb_debounceOk:
  "debounceOk (loop_body i s) =
     (if pressed i then (if accepted i s then 0 else debounceOk s)
      else if 3 \<le> elapsed (now (loop_body i s)) (btnTime s) then 1 else debounceOk s)"
  by (simp add: loop_body_def os_vars bo_btn bo_now ab_debounceOk ab_now)

lemma lb_flagTriggered:
  "flagTriggered (loop_body i s) =
     (if fault_asserted i then 1 else if accepted i s then 0 else flagTriggered s)"
  by (simp add: loop_body_def os_vars bo_flagTriggered)

lemma lb_powerOn:
  "powerOn (loop_body i s) =
     (if fault_asserted i then 0
      else if accepted i s \<and> flagTriggered s = 0 then lnot (powerOn s) else powerOn s)"
  by (simp add: loop_body_def os_vars bo_powerOn)

lemma lb_flagTrigTime:
  "flagTrigTime (loop_body i s) =
     (if fault_asserted i \<and> flagSet s = 0 then now (loop_body i s) else flagTrigTime s)"
  by (simp add: loop_body_def os_vars bo_flagTrigTime)

lemma lb_flagSet:
  "flagSet (loop_body i s) =
     (if pulse_ends i s then 0 else if fault_asserted i then 1 else flagSet s)"
  by (simp add: loop_body_def os_vars bo_flagSet)

lemma lb_pulse_ends:
  "pulse_ends i s \<longleftrightarrow>
     flagTriggered (loop_body i s) \<noteq> 0 \<and> (fault_asserted i \<or> flagSet s \<noteq> 0) \<and>
     2 \<le> elapsed (now (loop_body i s)) (flagTrigTime (loop_body i s))"
  by (simp add: pulse_ends_iff loop_body_def os_vars)

lemma lb_line_low:
  "fault_line_low (loop_body i s) =
     (if pulse_ends i s then False else if fault_asserted i then True else fault_line_low s)"
  by (simp add: fault_line_low_def loop_body_def os_vars os_PORTB4 bo_DDRB4 bo_PORTB4)

lemma lb_line_released:
  "fault_line_released (loop_body i s) =
     (if pulse_ends i s then True else if fault_asserted i then False
      else fault_line_released s)"
  by (simp add: fault_line_released_def loop_body_def os_vars os_PORTB4 bo_DDRB4 bo_PORTB4)

lemma lb_led:
  "led (loop_body i s) =
     (if powerOn (loop_body i s) \<noteq> 0 then LED_GREEN
      else if flagTriggered (loop_body i s) \<noteq> 0 then LED_RED else LED_OFF)"
  by (simp add: loop_body_def os_vars os_led)

lemma lb_power: "power_active (loop_body i s) = (powerOn (loop_body i s) \<noteq> 0)"
  by (simp add: loop_body_def os_vars os_power)


subsection \<open>On entry to the loop\<close>

lemma init_fields:
  "powerOn (main_init p d) = 0"
  "flagTriggered (main_init p d) = 0"
  "now (main_init p d) = 0"
  "btnState (main_init p d) = 0"
  "btnTime (main_init p d) = 0"
  "flagSet (main_init p d) = 0"
  "flagTrigTime (main_init p d) = 0"
  "debounceOk (main_init p d) = 1"
  by (simp_all add: main_init_def macro_defs eval_nat_numeral)

lemma init_led: "led (main_init p d) = LED_OFF"
  by (simp add: main_init_def led_LEDSET led_codes)

lemma init_power: "\<not> power_active (main_init p d)"
  by (simp add: main_init_def power_active_def macro_defs eval_nat_numeral led_defs
      bit_simps bit_BV bitno_defs)

section \<open>The outputs\<close>

text \<open>
  Claim C7. The output block (lines 160 to 172) drives the LED and the power-enable
  output as the specification's function of the \<open>powerOn\<close> and \<open>flagTriggered\<close> it finds,
  whatever \<open>PORTB\<close> held before, and changes neither of them, no other variable, nor the
  fault pin: green and power active when \<open>powerOn\<close> is set; red and power inactive when it
  is clear and \<open>flagTriggered\<close> is set; off and power inactive when both are clear. A pass
  ends with this block, so at the end of every pass the outputs are that function of the
  \<open>powerOn\<close> and \<open>flagTriggered\<close> the pass has decided. The same holds on entry to the
  loop. The LED is in one of the three states, and the three are different.
\<close>

theorem outputs_pure_function:
  "(led (output_step m), power_active (output_step m)) =
      output_map (powerOn m \<noteq> 0) (flagTriggered m \<noteq> 0) \<and>
   powerOn (output_step m) = powerOn m \<and>
   flagTriggered (output_step m) = flagTriggered m \<and>
   now (output_step m) = now m \<and> btnState (output_step m) = btnState m \<and>
   btnTime (output_step m) = btnTime m \<and> debounceOk (output_step m) = debounceOk m \<and>
   flagTrigTime (output_step m) = flagTrigTime m \<and> flagSet (output_step m) = flagSet m \<and>
   DDRB (output_step m) = DDRB m \<and>
   bit (PORTB (output_step m)) PORTB4 = bit (PORTB m) PORTB4 \<and>
   (led (output_step (m\<lparr>PORTB := x\<rparr>)), power_active (output_step (m\<lparr>PORTB := x\<rparr>))) =
      (led (output_step m), power_active (output_step m)) \<and>
   loop_body i s = output_step (before_output i s) \<and>
   (led (loop_body i s), power_active (loop_body i s)) =
      output_map (powerOn (before_output i s) \<noteq> 0) (flagTriggered (before_output i s) \<noteq> 0) \<and>
   (led (loop_body i s), power_active (loop_body i s)) =
      output_map (powerOn (loop_body i s) \<noteq> 0) (flagTriggered (loop_body i s) \<noteq> 0) \<and>
   (led (main_init p d), power_active (main_init p d)) =
      output_map (powerOn (main_init p d) \<noteq> 0) (flagTriggered (main_init p d) \<noteq> 0) \<and>
   led (loop_body i s) \<in> {LED_OFF, LED_RED, LED_GREEN} \<and>
   distinct [LED_OFF, LED_RED, LED_GREEN]"
proof -
  have a: "(led (output_step m), power_active (output_step m)) =
      output_map (powerOn m \<noteq> 0) (flagTriggered m \<noteq> 0)" for m
    by (simp add: output_map_def os_led os_power)
  have b: "(led (output_step (m\<lparr>PORTB := x\<rparr>)), power_active (output_step (m\<lparr>PORTB := x\<rparr>))) =
      (led (output_step m), power_active (output_step m))"
    by (simp add: a)
  have c: "loop_body i s = output_step (before_output i s)"
    by (simp add: loop_body_def)
  have d: "(led (loop_body i s), power_active (loop_body i s)) =
      output_map (powerOn (before_output i s) \<noteq> 0) (flagTriggered (before_output i s) \<noteq> 0)"
    by (simp add: c a)
  have e: "(led (loop_body i s), power_active (loop_body i s)) =
      output_map (powerOn (loop_body i s) \<noteq> 0) (flagTriggered (loop_body i s) \<noteq> 0)"
    by (simp add: output_map_def lb_led lb_power)
  have f: "(led (main_init p d), power_active (main_init p d)) =
      output_map (powerOn (main_init p d) \<noteq> 0) (flagTriggered (main_init p d) \<noteq> 0)"
    by (simp add: output_map_def init_fields init_led init_power)
  have g: "led (loop_body i s) \<in> {LED_OFF, LED_RED, LED_GREEN}"
    by (simp add: lb_led)
  have h: "distinct [LED_OFF, LED_RED, LED_GREEN]"
    by (simp add: led_distinct led_distinct [symmetric])
  from a [of m] b c d e f g h os_vars [of m] os_PORTB4 [of m] show ?thesis
    by blast
qed

section \<open>The fault cut-off\<close>

text \<open>
  Claim C1. In every pass in which the fault flag samples asserted, whatever the state
  before and whatever the button does in that pass, at the end of the pass
  \<open>flagTriggered\<close> is set, \<open>powerOn\<close> is clear, the power-enable output is inactive and
  the LED is red.
\<close>

theorem fault_cuts_power:
  assumes "fault_asserted i"
  shows "flagTriggered (loop_body i s) \<noteq> 0 \<and> powerOn (loop_body i s) = 0 \<and>
         \<not> power_active (loop_body i s) \<and> led (loop_body i s) = LED_RED"
  using assms by (simp add: lb_led lb_power lb_flagTriggered lb_powerOn)

text \<open>
  The power is switched on by a press; in the next pass the fault flag and the button
  both sample active.
\<close>

theorem fault_cuts_power_witness:
  "fault_asserted press_fault_tick \<and> pressed press_fault_tick \<and>
   powerOn (loop_body press_now reset_state) \<noteq> 0 \<and>
   flagTriggered (loop_body press_fault_tick (loop_body press_now reset_state)) \<noteq> 0 \<and>
   powerOn (loop_body press_fault_tick (loop_body press_now reset_state)) = 0 \<and>
   \<not> power_active (loop_body press_fault_tick (loop_body press_now reset_state)) \<and>
   led (loop_body press_fault_tick (loop_body press_now reset_state)) = LED_RED"
proof -
  have f: "fault_asserted press_fault_tick"
    by (simp add: press_fault_tick_def fault_pins)
  have b: "pressed press_fault_tick"
    by (simp add: press_fault_tick_def pressed_pins)
  have p: "powerOn (loop_body press_now reset_state) \<noteq> 0"
    by code_simp
  from fault_cuts_power [OF f] f b p show ?thesis
    by blast
qed

section \<open>Power on and fault latched exclude each other\<close>

lemma inv_step:
  assumes "\<not> (powerOn s \<noteq> 0 \<and> flagTriggered s \<noteq> 0)"
  shows "\<not> (powerOn (before_output i s) \<noteq> 0 \<and> flagTriggered (before_output i s) \<noteq> 0)"
  using assms by (auto simp add: bo_powerOn bo_flagTriggered split: if_splits)

lemma inv_run:
  assumes "\<not> (powerOn s \<noteq> 0 \<and> flagTriggered s \<noteq> 0)"
  shows "\<not> (powerOn (run ins s) \<noteq> 0 \<and> flagTriggered (run ins s) \<noteq> 0)"
  using assms
proof (induction ins arbitrary: s)
  case Nil
  then show ?case by simp
next
  case (Cons i ins)
  have "\<not> (powerOn (loop_body i s) \<noteq> 0 \<and> flagTriggered (loop_body i s) \<noteq> 0)"
    using inv_step [OF Cons.prems, of i] by (simp add: loop_body_def os_vars)
  from Cons.IH [OF this] show ?case by simp
qed

lemma inv_reach:
  "\<not> (powerOn (run ins (main_init p d)) \<noteq> 0 \<and> flagTriggered (run ins (main_init p d)) \<noteq> 0)"
  by (rule inv_run) (simp add: init_fields)

text \<open>
  Claim C9. After any number of passes from the entry state, \<open>powerOn\<close> and
  \<open>flagTriggered\<close> are never both set at the point where the next pass drives the outputs
  (line 159), nor at the end of a pass.
\<close>

theorem never_on_and_faulted:
  "\<not> (powerOn (before_output i (run ins (main_init p d))) \<noteq> 0 \<and>
       flagTriggered (before_output i (run ins (main_init p d))) \<noteq> 0) \<and>
   \<not> (powerOn (run ins (main_init p d)) \<noteq> 0 \<and>
       flagTriggered (run ins (main_init p d)) \<noteq> 0)"
  using inv_step [OF inv_reach, of i ins p d] inv_reach [of ins p d] by blast


section \<open>Scenario A\<close>

text \<open>
  Claim C6, as stated, fails at its last step: in scenario A the press at tick 4 is not
  accepted, and \<open>powerOn\<close> is still set after it.
\<close>

theorem scenario_A_counterexample:
  "now (run scenario_A reset_state) = 4 \<and> powerOn (run scenario_A reset_state) \<noteq> 0"
  by code_simp

text \<open>
  Claim C6, amended. From the entry state, the press at tick 0 sets \<open>powerOn\<close> in that
  pass (LED green, power output active). The press at tick 2 is not accepted, since
  \<open>debounceOk\<close> is clear, and \<open>powerOn\<close> stays set; but line 130 records it,
  \<open>btnTime = 2\<close>, so the debounce window starts again. The press at tick 4 is therefore
  not accepted either and \<open>powerOn\<close> stays set. With the button released at ticks 3, 4
  and 5, a press at tick 6 is accepted and clears \<open>powerOn\<close>.
\<close>

theorem scenario_A_amended:
  "now (run (take 1 scenario_A) reset_state) = 0 \<and>
   powerOn (run (take 1 scenario_A) reset_state) \<noteq> 0 \<and>
   led (run (take 1 scenario_A) reset_state) = LED_GREEN \<and>
   power_active (run (take 1 scenario_A) reset_state) \<and>
   now (run (take 3 scenario_A) reset_state) = 2 \<and>
   \<not> accepted (scenario_A ! 2) (run (take 2 scenario_A) reset_state) \<and>
   debounceOk (run (take 2 scenario_A) reset_state) = 0 \<and>
   powerOn (run (take 3 scenario_A) reset_state) \<noteq> 0 \<and>
   btnTime (run (take 3 scenario_A) reset_state) = 2 \<and>
   now (run scenario_A reset_state) = 4 \<and>
   \<not> accepted (scenario_A ! 4) (run (take 4 scenario_A) reset_state) \<and>
   powerOn (run scenario_A reset_state) \<noteq> 0 \<and>
   take 4 scenario_A_later = take 4 scenario_A \<and>
   now (run scenario_A_later reset_state) = 6 \<and>
   accepted (scenario_A_later ! 6) (run (take 6 scenario_A_later) reset_state) \<and>
   powerOn (run scenario_A_later reset_state) = 0"
  by code_simp


section \<open>Lists of passes\<close>

lemma run_append: "run (xs @ ys) s = run ys (run xs s)"
  by (induction xs arbitrary: s) simp_all

lemma ticks_append: "ticks (xs @ ys) = ticks xs + ticks ys"
  by (induction xs) simp_all

lemma presses_append: "presses (xs @ ys) s = presses xs s + presses ys (run xs s)"
  by (induction xs arbitrary: s) simp_all

lemma input_simps:
  "pressed press_now" "pressed press_tick" "pressed press_fault_tick"
  "\<not> pressed idle_tick" "\<not> pressed fault_now" "\<not> pressed fault_tick"
  "fault_asserted fault_now" "fault_asserted fault_tick" "fault_asserted press_fault_tick"
  "\<not> fault_asserted idle_tick" "\<not> fault_asserted press_now" "\<not> fault_asserted press_tick"
  "fst press_tick" "fst fault_tick" "fst idle_tick" "fst press_fault_tick"
  "\<not> fst press_now" "\<not> fst fault_now"
  by (simp_all add: press_now_def press_tick_def press_fault_tick_def idle_tick_def
      fault_now_def fault_tick_def pressed_pins fault_pins)

lemma idle_ticks_released: "list_all (\<lambda>i. \<not> pressed i) (idle_ticks n)"
  by (simp add: idle_ticks_def list_all_length input_simps)

lemma idle_ticks_no_fault: "list_all (\<lambda>i. \<not> fault_asserted i) (idle_ticks n)"
  by (simp add: idle_ticks_def list_all_length input_simps)

lemma ticks_idle_ticks: "ticks (idle_ticks n) = n"
  by (induction n) (simp_all add: idle_ticks_def input_simps)

section \<open>Acknowledging a fault\<close>

lemma powerOn_stays_off:
  assumes "powerOn s = 0" "presses ins s = 0"
  shows "powerOn (run ins s) = 0"
  using assms
proof (induction ins arbitrary: s)
  case Nil
  then show ?case by simp
next
  case (Cons i ins)
  from Cons.prems have na: "\<not> accepted i s" and p: "presses ins (loop_body i s) = 0"
    by (simp_all split: if_splits)
  from na Cons.prems(1) have "powerOn (loop_body i s) = 0"
    by (simp add: lb_powerOn)
  from Cons.IH [OF this p] show ?case by simp
qed

lemma flagTriggered_stays:
  assumes "flagTriggered s \<noteq> 0" "presses ins s = 0"
  shows "flagTriggered (run ins s) \<noteq> 0"
  using assms
proof (induction ins arbitrary: s)
  case Nil
  then show ?case by simp
next
  case (Cons i ins)
  from Cons.prems have na: "\<not> accepted i s" and p: "presses ins (loop_body i s) = 0"
    by (simp_all split: if_splits)
  from na Cons.prems(1) have "flagTriggered (loop_body i s) \<noteq> 0"
    by (simp add: lb_flagTriggered)
  from Cons.IH [OF this p] show ?case by simp
qed

lemma one_press_keeps_off:
  assumes "flagTriggered s \<noteq> 0" "powerOn s = 0" "presses ins s \<le> 1"
  shows "powerOn (run ins s) = 0"
  using assms
proof (induction ins arbitrary: s)
  case Nil
  then show ?case by simp
next
  case (Cons i ins)
  show ?case
  proof (cases "accepted i s")
    case True
    with Cons.prems have p: "presses ins (loop_body i s) = 0"
      by simp
    from True Cons.prems have "powerOn (loop_body i s) = 0"
      by (simp add: lb_powerOn)
    from powerOn_stays_off [OF this p] show ?thesis by simp
  next
    case False
    with Cons.prems have p: "presses ins (loop_body i s) \<le> 1"
      by simp
    from False Cons.prems
    have "flagTriggered (loop_body i s) \<noteq> 0" "powerOn (loop_body i s) = 0"
      by (simp_all add: lb_powerOn lb_flagTriggered)
    from Cons.IH [OF this p] show ?thesis by simp
  qed
qed

text \<open>
  Claim C2. When \<open>flagTriggered\<close> is set, an accepted press clears it in the button block
  and leaves \<open>powerOn\<close> as it was; so it is at the end of the pass when the fault flag is
  not sampled asserted in that pass. In a state the loop can reach, \<open>powerOn\<close> is then
  clear. \<open>powerOn\<close> goes from clear to set only in a pass with an accepted press that
  starts with \<open>flagTriggered\<close> clear. Hence, from a reachable state with \<open>flagTriggered\<close>
  set, any passes that end with \<open>powerOn\<close> set contain at least two accepted presses.
\<close>

theorem two_presses_after_fault:
  "(accepted i s \<and> flagTriggered s \<noteq> 0 \<longrightarrow>
      flagTriggered (after_button i s) = 0 \<and> powerOn (after_button i s) = powerOn s) \<and>
   (accepted i s \<and> flagTriggered s \<noteq> 0 \<and> \<not> fault_asserted i \<longrightarrow>
      flagTriggered (loop_body i s) = 0 \<and> powerOn (loop_body i s) = powerOn s) \<and>
   (flagTriggered (run pre (main_init p d)) \<noteq> 0 \<longrightarrow>
      powerOn (run pre (main_init p d)) = 0) \<and>
   (powerOn t = 0 \<and> powerOn (loop_body j t) \<noteq> 0 \<longrightarrow> accepted j t \<and> flagTriggered t = 0) \<and>
   (flagTriggered (run pre (main_init p d)) \<noteq> 0 \<and>
    powerOn (run ins (run pre (main_init p d))) \<noteq> 0 \<longrightarrow>
      2 \<le> presses ins (run pre (main_init p d)))"
proof -
  have a: "accepted i s \<and> flagTriggered s \<noteq> 0 \<longrightarrow>
      flagTriggered (after_button i s) = 0 \<and> powerOn (after_button i s) = powerOn s"
    by (simp add: ab_flagTriggered ab_powerOn)
  have b: "accepted i s \<and> flagTriggered s \<noteq> 0 \<and> \<not> fault_asserted i \<longrightarrow>
      flagTriggered (loop_body i s) = 0 \<and> powerOn (loop_body i s) = powerOn s"
    by (simp add: lb_flagTriggered lb_powerOn)
  have c: "flagTriggered (run pre (main_init p d)) \<noteq> 0 \<longrightarrow>
      powerOn (run pre (main_init p d)) = 0"
    using inv_reach [of pre p d] by blast
  have d: "powerOn t = 0 \<and> powerOn (loop_body j t) \<noteq> 0 \<longrightarrow>
      accepted j t \<and> flagTriggered t = 0"
    by (simp add: lb_powerOn split: if_splits)
  have e: "flagTriggered (run pre (main_init p d)) \<noteq> 0 \<and>
    powerOn (run ins (run pre (main_init p d))) \<noteq> 0 \<longrightarrow>
      2 \<le> presses ins (run pre (main_init p d))"
  proof (intro impI, elim conjE)
    assume f: "flagTriggered (run pre (main_init p d)) \<noteq> 0"
      and on: "powerOn (run ins (run pre (main_init p d))) \<noteq> 0"
    from f c have off: "powerOn (run pre (main_init p d)) = 0" by simp
    show "2 \<le> presses ins (run pre (main_init p d))"
    proof (rule ccontr)
      assume "\<not> 2 \<le> presses ins (run pre (main_init p d))"
      then have "presses ins (run pre (main_init p d)) \<le> 1" by simp
      from one_press_keeps_off [OF f off this] on show False by simp
    qed
  qed
  from a b c d e show ?thesis by blast
qed

text \<open>
  A fault at tick 0; the press at tick 3 acknowledges it, the press at tick 7 switches
  the power on.
\<close>

theorem two_presses_after_fault_witness:
  "flagTriggered (run fault_then_idle reset_state) \<noteq> 0 \<and>
   accepted press_tick (run fault_then_idle reset_state) \<and>
   \<not> fault_asserted press_tick \<and>
   flagTriggered (loop_body press_tick (run fault_then_idle reset_state)) = 0 \<and>
   powerOn (loop_body press_tick (run fault_then_idle reset_state)) = 0 \<and>
   powerOn (run (butlast ack_then_toggle) (run fault_then_idle reset_state)) = 0 \<and>
   powerOn (loop_body press_tick
     (run (butlast ack_then_toggle) (run fault_then_idle reset_state))) \<noteq> 0 \<and>
   accepted press_tick (run (butlast ack_then_toggle) (run fault_then_idle reset_state)) \<and>
   powerOn (run ack_then_toggle (run fault_then_idle reset_state)) \<noteq> 0 \<and>
   2 \<le> presses ack_then_toggle (run fault_then_idle reset_state)"
proof -
  have h1: "flagTriggered (run fault_then_idle (main_init 0 0)) \<noteq> 0"
    by code_simp
  have h2: "accepted press_tick (run fault_then_idle (main_init 0 0))"
    by code_simp
  have h3: "\<not> fault_asserted press_tick"
    by (simp add: input_simps)
  have h4: "powerOn (run (butlast ack_then_toggle) (run fault_then_idle (main_init 0 0))) = 0"
    by code_simp
  have h5: "powerOn (loop_body press_tick
     (run (butlast ack_then_toggle) (run fault_then_idle (main_init 0 0)))) \<noteq> 0"
    by code_simp
  have h6: "powerOn (run ack_then_toggle (run fault_then_idle (main_init 0 0))) \<noteq> 0"
    by code_simp
  from two_presses_after_fault [of press_tick "run fault_then_idle (main_init 0 0)"
      fault_then_idle 0 0
      "run (butlast ack_then_toggle) (run fault_then_idle (main_init 0 0))" press_tick
      ack_then_toggle]
    h1 h2 h3 h4 h5 h6
  show ?thesis
    unfolding reset_state_def by simp
qed


section \<open>Debouncing\<close>

lemma unat_Suc_le: "unat (x + 1 :: u8) \<le> unat x + 1"
proof -
  have "unat (x + 1) = (unat x + 1) mod 2 ^ 8"
    by (simp add: unat_word_ariths)
  also have "\<dots> \<le> unat x + 1"
    by (rule mod_less_eq_dividend)
  finally show ?thesis .
qed

lemma elapsed_tick: "unat (elapsed (n + 1) t) \<le> unat (elapsed n t) + 1"
proof -
  have "elapsed (n + 1) t = elapsed n t + 1"
    by (simp add: elapsed_def)
  with unat_Suc_le [of "elapsed n t"] show ?thesis
    by simp
qed

lemma debounce_inv_step:
  assumes "unat (elapsed (now s) (btnTime s)) \<le> n" "debounceOk s \<noteq> 0 \<longrightarrow> 3 \<le> n"
  shows "unat (elapsed (now (loop_body i s)) (btnTime (loop_body i s))) \<le> n + (if fst i then 1 else 0) \<and>
         (debounceOk (loop_body i s) \<noteq> 0 \<longrightarrow> 3 \<le> n + (if fst i then 1 else 0))"
proof (cases "pressed i")
  case True
  have "elapsed (now (loop_body i s)) (btnTime (loop_body i s)) = 0"
    using True by (simp add: lb_btnTime elapsed_def)
  moreover have "debounceOk (loop_body i s) \<noteq> 0 \<longrightarrow> debounceOk s \<noteq> 0"
    using True by (simp add: lb_debounceOk)
  ultimately show ?thesis using assms by auto
next
  case False
  have bt: "btnTime (loop_body i s) = btnTime s"
    using False by (simp add: lb_btnTime)
  have e: "unat (elapsed (now (loop_body i s)) (btnTime s)) \<le> n + (if fst i then 1 else 0)"
    using assms(1) elapsed_tick [of "now s" "btnTime s"] by (simp add: lb_now)
  have "debounceOk (loop_body i s) \<noteq> 0 \<longrightarrow>
          3 \<le> unat (elapsed (now (loop_body i s)) (btnTime s)) \<or> debounceOk s \<noteq> 0"
    using False by (auto simp add: lb_debounceOk word_le_nat_alt split: if_splits)
  with e assms(2) bt show ?thesis by auto
qed

lemma debounce_inv_run:
  assumes "unat (elapsed (now s) (btnTime s)) \<le> n" "debounceOk s \<noteq> 0 \<longrightarrow> 3 \<le> n"
  shows "unat (elapsed (now (run ins s)) (btnTime (run ins s))) \<le> n + ticks ins \<and>
         (debounceOk (run ins s) \<noteq> 0 \<longrightarrow> 3 \<le> n + ticks ins)"
  using assms
proof (induction ins arbitrary: s n)
  case Nil
  then show ?case by simp
next
  case (Cons i ins)
  from debounce_inv_step [OF Cons.prems, of i]
  have "unat (elapsed (now (loop_body i s)) (btnTime (loop_body i s))) \<le> n + (if fst i then 1 else 0)"
    and "debounceOk (loop_body i s) \<noteq> 0 \<longrightarrow> 3 \<le> n + (if fst i then 1 else 0)"
    by simp_all
  from Cons.IH [OF this] show ?case
    by (simp add: add.assoc)
qed

lemma held_press:
  assumes "debounceOk s = 0" "btnTime s = now s" "btnState s \<noteq> 0" "list_all pressed hold"
  shows "debounceOk (run hold s) = 0 \<and> btnTime (run hold s) = now (run hold s)"
  using assms
proof (induction hold arbitrary: s)
  case Nil
  then show ?case by simp
next
  case (Cons h hold)
  from Cons.prems have p: "pressed h" and r: "list_all pressed hold"
    by simp_all
  have "debounceOk (loop_body h s) = 0" "btnTime (loop_body h s) = now (loop_body h s)"
    "btnState (loop_body h s) \<noteq> 0"
    using p Cons.prems(1,3) by (simp_all add: lb_debounceOk lb_btnTime lb_btnState accepted_def pressed_def)
  from Cons.IH [OF this r] show ?case by simp
qed

lemma after_accepted:
  assumes "accepted i s"
  shows "debounceOk (loop_body i s) = 0" "btnTime (loop_body i s) = now (loop_body i s)"
    "btnState (loop_body i s) \<noteq> 0"
  using assms by (simp_all add: lb_debounceOk lb_btnTime lb_btnState accepted_def pressed_def)

lemma three_ticks_apart:
  assumes "accepted i s" "list_all pressed hold" "accepted k (run (i # hold @ mid) s)"
  shows "3 \<le> ticks mid"
proof -
  from held_press [OF after_accepted [OF assms(1)] assms(2)]
  have z: "debounceOk (run hold (loop_body i s)) = 0"
    and b: "btnTime (run hold (loop_body i s)) = now (run hold (loop_body i s))"
    by simp_all
  have "unat (elapsed (now (run hold (loop_body i s))) (btnTime (run hold (loop_body i s)))) \<le> 0"
    using b by (simp add: elapsed_def)
  from debounce_inv_run [OF this, of mid] z
  have "debounceOk (run mid (run hold (loop_body i s))) \<noteq> 0 \<longrightarrow> 3 \<le> ticks mid"
    by simp
  moreover from assms(3) have "debounceOk (run mid (run hold (loop_body i s))) \<noteq> 0"
    by (simp add: accepted_def run_append)
  ultimately show ?thesis by simp
qed

text \<open>
  Claim C5. The button block flips \<open>powerOn\<close> or clears \<open>flagTriggered\<close> only in a pass
  whose press is accepted: the button samples pressed, it sampled released in the pass
  before, and \<open>debounceOk\<close> is set. Acceptance clears \<open>debounceOk\<close>, and \<open>debounceOk\<close>
  goes from clear to set only in a pass where the button samples released and
  \<open>(now - btnTime) mod 256\<close> is at least 3. Hence between the last pressed sample of an
  accepted press and the next accepted press there are at least 3 ticks, and a pass that
  follows a pressed sample never accepts a press.
\<close>

theorem debounced_toggle:
  "(powerOn (after_button i s) \<noteq> powerOn s \<or>
    flagTriggered (after_button i s) \<noteq> flagTriggered s \<longrightarrow> accepted i s) \<and>
   (accepted k (loop_body h t) \<longrightarrow>
      \<not> pressed h \<and> pressed k \<and> debounceOk (loop_body h t) \<noteq> 0) \<and>
   (accepted i s \<longrightarrow> debounceOk (loop_body i s) = 0) \<and>
   (debounceOk u = 0 \<and> debounceOk (loop_body j u) \<noteq> 0 \<longrightarrow>
      \<not> pressed j \<and> 3 \<le> elapsed (now (loop_body j u)) (btnTime u)) \<and>
   (accepted i s \<and> list_all pressed hold \<and> accepted k (run (i # hold @ mid) s) \<longrightarrow>
      3 \<le> ticks mid) \<and>
   (pressed g \<longrightarrow> \<not> accepted k (loop_body g v))"
proof -
  have a: "powerOn (after_button i s) \<noteq> powerOn s \<or>
      flagTriggered (after_button i s) \<noteq> flagTriggered s \<longrightarrow> accepted i s"
    by (simp add: ab_powerOn ab_flagTriggered split: if_splits)
  have b: "accepted k (loop_body h t) \<longrightarrow>
      \<not> pressed h \<and> pressed k \<and> debounceOk (loop_body h t) \<noteq> 0"
    by (simp add: accepted_def lb_btnState pressed_def)
  have c: "accepted i s \<longrightarrow> debounceOk (loop_body i s) = 0"
    by (simp add: after_accepted)
  have d: "debounceOk u = 0 \<and> debounceOk (loop_body j u) \<noteq> 0 \<longrightarrow>
      \<not> pressed j \<and> 3 \<le> elapsed (now (loop_body j u)) (btnTime u)"
    by (simp add: lb_debounceOk split: if_splits)
  have e: "accepted i s \<and> list_all pressed hold \<and> accepted k (run (i # hold @ mid) s) \<longrightarrow>
      3 \<le> ticks mid"
    using three_ticks_apart by blast
  have f: "pressed g \<longrightarrow> \<not> accepted k (loop_body g v)"
    by (simp add: accepted_def lb_btnState pressed_def)
  from a b c d e f show ?thesis by blast
qed

text \<open>
  A press at tick 0 that is held at tick 1, released at ticks 2, 3 and 4, and a second
  press at tick 5.
\<close>

theorem debounced_toggle_witness:
  "powerOn (after_button press_now reset_state) \<noteq> powerOn reset_state \<and>
   accepted press_now reset_state \<and>
   debounceOk (loop_body press_now reset_state) = 0 \<and>
   list_all pressed [press_tick] \<and>
   debounceOk (run (press_now # [press_tick] @ idle_ticks 2) reset_state) = 0 \<and>
   debounceOk (run (press_now # [press_tick] @ idle_ticks 3) reset_state) \<noteq> 0 \<and>
   3 \<le> elapsed (now (run (press_now # [press_tick] @ idle_ticks 3) reset_state))
          (btnTime (run (press_now # [press_tick] @ idle_ticks 2) reset_state)) \<and>
   accepted press_tick (run (press_now # [press_tick] @ idle_ticks 3) reset_state) \<and>
   3 \<le> ticks (idle_ticks 3) \<and>
   pressed press_tick \<and>
   \<not> accepted press_tick (loop_body press_tick reset_state)"
proof -
  let ?u = "run (press_now # [press_tick] @ idle_ticks 2) reset_state"
  have e: "run (press_now # [press_tick] @ idle_ticks 3) reset_state = loop_body idle_tick ?u"
    by (simp add: idle_ticks_def eval_nat_numeral)
  have h1: "powerOn (after_button press_now reset_state) \<noteq> powerOn reset_state"
    by code_simp
  have h2: "accepted press_now reset_state"
    by code_simp
  have h3: "list_all pressed [press_tick]"
    by (simp add: input_simps)
  have h4: "debounceOk ?u = 0"
    by code_simp
  have h5: "debounceOk (loop_body idle_tick ?u) \<noteq> 0"
    by code_simp
  have h6: "accepted press_tick (loop_body idle_tick ?u)"
    by code_simp
  have h7: "pressed press_tick"
    by (simp add: input_simps)
  from debounced_toggle [where i = press_now and s = reset_state and k = press_tick
      and h = idle_tick and t = ?u and u = ?u and j = idle_tick and hold = "[press_tick]"
      and mid = "idle_ticks 3" and g = press_tick and v = reset_state]
    h1 h2 h3 h4 h5 h6 h7
  show ?thesis
    unfolding e by simp
qed

section \<open>Counting ticks with the modular subtraction\<close>

lemma elapsed_unat: "unat (elapsed n t) = (unat n + 256 - unat t) mod 256"
proof -
  have "unat t \<le> 256"
    using unsigned_less [of t, where 'a = nat] by simp
  then have "int (unat (n - t)) = int ((unat n + 256 - unat t) mod 256)"
    by (simp add: uint_word_ariths of_nat_mod of_nat_diff mod_diff_left_eq flip: uint_nat)
      (metis add.commute add_diff_eq mod_add_self1)
  then show ?thesis
    by (simp only: elapsed_def of_nat_eq_iff)
qed

lemma elapsed_count:
  assumes "k < 256"
  shows "elapsed (t + of_nat k) t = of_nat k" "unat (elapsed (t + of_nat k) t) = k"
  using assms by (simp_all add: elapsed_def unat_of_nat)

lemma unat_Suc_eq: "unat x + 1 < 256 \<Longrightarrow> unat (x + 1 :: u8) = unat x + 1"
  by (simp add: unat_word_ariths)

lemma released_keeps_ready:
  assumes "debounceOk s \<noteq> 0" "list_all (\<lambda>i. \<not> pressed i) ins"
  shows "debounceOk (run ins s) \<noteq> 0"
  using assms
proof (induction ins arbitrary: s)
  case Nil
  then show ?case by simp
next
  case (Cons i ins)
  from Cons.prems have "debounceOk (loop_body i s) \<noteq> 0"
    by (simp add: lb_debounceOk)
  with Cons.IH Cons.prems(2) show ?case by simp
qed

lemma released_elapsed:
  assumes "\<not> pressed i" "unat (elapsed (now s) (btnTime s)) + (if fst i then 1 else 0) < 256"
  shows "unat (elapsed (now (loop_body i s)) (btnTime (loop_body i s))) =
         unat (elapsed (now s) (btnTime s)) + (if fst i then 1 else 0)"
proof -
  have "elapsed (now s + 1) (btnTime s) = elapsed (now s) (btnTime s) + 1"
    by (simp add: elapsed_def)
  with assms unat_Suc_eq [of "elapsed (now s) (btnTime s)"] show ?thesis
    by (cases "fst i") (simp_all add: lb_now lb_btnTime)
qed

lemma debounce_ready_exact:
  assumes "debounceOk s = 0" "list_all (\<lambda>i. \<not> pressed i) ins" "ins \<noteq> []"
    "unat (elapsed (now s) (btnTime s)) + ticks ins < 256"
  shows "(debounceOk (run ins s) \<noteq> 0) = (3 \<le> unat (elapsed (now s) (btnTime s)) + ticks ins)"
  using assms
proof (induction ins arbitrary: s)
  case Nil
  then show ?case by simp
next
  case (Cons i ins)
  let ?w = "if fst i then 1 else 0 :: nat"
  let ?s = "loop_body i s"
  from Cons.prems have np: "\<not> pressed i" and rest: "list_all (\<lambda>i. \<not> pressed i) ins"
    by simp_all
  from Cons.prems(4) have lt: "unat (elapsed (now s) (btnTime s)) + ?w < 256"
    by simp
  have e: "unat (elapsed (now ?s) (btnTime ?s)) = unat (elapsed (now s) (btnTime s)) + ?w"
    by (rule released_elapsed [OF np lt])
  have bt: "btnTime ?s = btnTime s"
    using np by (simp add: lb_btnTime)
  have ok: "(debounceOk ?s \<noteq> 0) = (3 \<le> unat (elapsed (now ?s) (btnTime ?s)))"
    using np Cons.prems(1) by (simp add: lb_debounceOk bt word_le_nat_alt)
  show ?case
  proof (cases "debounceOk ?s = 0")
    case True
    show ?thesis
    proof (cases "ins = []")
      case True
      with ok e show ?thesis by simp
    next
      case False
      from Cons.prems(4) e have "unat (elapsed (now ?s) (btnTime ?s)) + ticks ins < 256"
        by simp
      from Cons.IH [OF True rest False this] e show ?thesis
        by (simp add: add.assoc)
    qed
  next
    case False
    from released_keeps_ready [OF False rest] have "debounceOk (run (i # ins) s) \<noteq> 0"
      by simp
    moreover from False ok e have "3 \<le> unat (elapsed (now s) (btnTime s)) + ticks (i # ins)"
      by simp
    ultimately show ?thesis by simp
  qed
qed


section \<open>The pulse on the fault line\<close>

lemma pulse_start:
  assumes "fault_asserted i" "flagSet s = 0"
  shows "flagSet (loop_body i s) = 1" "fault_line_low (loop_body i s)"
    "flagTrigTime (loop_body i s) = now (loop_body i s)" "flagTriggered (loop_body i s) = 1"
proof -
  have t: "flagTrigTime (loop_body i s) = now (loop_body i s)"
    using assms by (simp add: lb_flagTrigTime)
  then have n: "\<not> pulse_ends i s"
    by (simp add: lb_pulse_ends elapsed_def)
  from assms t n show "flagSet (loop_body i s) = 1" "fault_line_low (loop_body i s)"
    "flagTrigTime (loop_body i s) = now (loop_body i s)" "flagTriggered (loop_body i s) = 1"
    by (simp_all add: lb_flagSet lb_line_low lb_flagTriggered)
qed

lemma pulse_hold_step:
  assumes "flagSet s \<noteq> 0" "fault_line_low s"
    "unat (elapsed (now s) (flagTrigTime s)) + (if fst i then 1 else 0) < 2"
  shows "flagSet (loop_body i s) \<noteq> 0 \<and> fault_line_low (loop_body i s) \<and>
         flagTrigTime (loop_body i s) = flagTrigTime s \<and>
         unat (elapsed (now (loop_body i s)) (flagTrigTime s)) =
           unat (elapsed (now s) (flagTrigTime s)) + (if fst i then 1 else 0)"
proof -
  have t: "flagTrigTime (loop_body i s) = flagTrigTime s"
    using assms(1) by (simp add: lb_flagTrigTime)
  have "elapsed (now s + 1) (flagTrigTime s) = elapsed (now s) (flagTrigTime s) + 1"
    by (simp add: elapsed_def)
  with assms(3) unat_Suc_eq [of "elapsed (now s) (flagTrigTime s)"]
  have e: "unat (elapsed (now (loop_body i s)) (flagTrigTime s)) =
           unat (elapsed (now s) (flagTrigTime s)) + (if fst i then 1 else 0)"
    by (cases "fst i") (simp_all add: lb_now)
  with assms(3) have "\<not> 2 \<le> elapsed (now (loop_body i s)) (flagTrigTime s)"
    by (simp add: word_le_nat_alt)
  then have n: "\<not> pulse_ends i s"
    by (simp add: lb_pulse_ends t)
  from assms(1,2) t e n show ?thesis
    by (simp add: lb_flagSet lb_line_low)
qed

lemma pulse_hold_run:
  assumes "flagSet s \<noteq> 0" "fault_line_low s"
    "unat (elapsed (now s) (flagTrigTime s)) + ticks ins < 2"
  shows "flagSet (run ins s) \<noteq> 0 \<and> fault_line_low (run ins s) \<and>
         flagTrigTime (run ins s) = flagTrigTime s \<and>
         unat (elapsed (now (run ins s)) (flagTrigTime s)) =
           unat (elapsed (now s) (flagTrigTime s)) + ticks ins"
  using assms
proof (induction ins arbitrary: s)
  case Nil
  then show ?case by simp
next
  case (Cons i ins)
  from Cons.prems(3)
  have lt: "unat (elapsed (now s) (flagTrigTime s)) + (if fst i then 1 else 0) < 2"
    by simp
  note st = pulse_hold_step [OF Cons.prems(1,2) lt]
  from st Cons.prems(3)
  have "unat (elapsed (now (loop_body i s)) (flagTrigTime (loop_body i s))) + ticks ins < 2"
    by simp
  with st Cons.IH [of "loop_body i s"] show ?case
    by (simp add: add.assoc)
qed

lemma pulse_release:
  assumes "flagSet s \<noteq> 0" "2 \<le> elapsed (now (loop_body j s)) (flagTrigTime s)"
  shows "(flagSet (loop_body j s) = 0) = (flagTriggered (loop_body j s) \<noteq> 0)"
    "fault_line_low s \<Longrightarrow>
       fault_line_released (loop_body j s) = (flagTriggered (loop_body j s) \<noteq> 0)"
    "fault_line_low s \<Longrightarrow> fault_line_low (loop_body j s) = (flagTriggered (loop_body j s) = 0)"
proof -
  have t: "flagTrigTime (loop_body j s) = flagTrigTime s"
    using assms(1) by (simp add: lb_flagTrigTime)
  have p: "pulse_ends j s = (flagTriggered (loop_body j s) \<noteq> 0)"
    using assms by (simp add: lb_pulse_ends t)
  have f: "fault_asserted j \<Longrightarrow> flagTriggered (loop_body j s) \<noteq> 0"
    by (simp add: lb_flagTriggered)
  show "(flagSet (loop_body j s) = 0) = (flagTriggered (loop_body j s) \<noteq> 0)"
    using assms(1) f by (auto simp add: lb_flagSet p)
  show "fault_line_released (loop_body j s) = (flagTriggered (loop_body j s) \<noteq> 0)"
    if "fault_line_low s"
  proof -
    from that have "\<not> fault_line_released s"
      by (simp add: fault_line_low_def fault_line_released_def)
    with f show ?thesis
      by (auto simp add: lb_line_released p)
  qed
  show "fault_line_low (loop_body j s) = (flagTriggered (loop_body j s) = 0)"
    if "fault_line_low s"
    using that f by (auto simp add: lb_line_low p)
qed

text \<open>
  With any samples at all: once a pulse has started, the line is low while fewer than 2
  ticks have passed; in the first pass with 2 ticks elapsed it is released exactly when
  \<open>flagTriggered\<close> is set there.
\<close>

lemma pulse_any_samples:
  assumes "fault_asserted i" "flagSet s = 0"
  shows
  "(ticks ins < 2 \<longrightarrow>
      fault_line_low (run (i # ins) s) \<and> flagSet (run (i # ins) s) \<noteq> 0 \<and>
      flagTrigTime (run (i # ins) s) = now (loop_body i s) \<and>
      unat (elapsed (now (run (i # ins) s)) (now (loop_body i s))) = ticks ins) \<and>
   (ticks ins = 1 \<and> fst j \<longrightarrow>
      elapsed (now (run (i # ins @ [j]) s)) (now (loop_body i s)) = 2 \<and>
      (flagSet (run (i # ins @ [j]) s) = 0) = (flagTriggered (run (i # ins @ [j]) s) \<noteq> 0) \<and>
      fault_line_released (run (i # ins @ [j]) s) = (flagTriggered (run (i # ins @ [j]) s) \<noteq> 0) \<and>
      fault_line_low (run (i # ins @ [j]) s) = (flagTriggered (run (i # ins @ [j]) s) = 0)) \<and>
   (ticks ins = 1 \<and> fst j \<and> (fault_asserted j \<or> presses (ins @ [j]) (loop_body i s) = 0) \<longrightarrow>
      flagSet (run (i # ins @ [j]) s) = 0 \<and> fault_line_released (run (i # ins @ [j]) s)) \<and>
   (presses ins (loop_body i s) = 0 \<longrightarrow> flagTriggered (run (i # ins) s) \<noteq> 0)"
proof -
  let ?s = "loop_body i s"
  note st = pulse_start [OF assms]
  have e0: "unat (elapsed (now ?s) (flagTrigTime ?s)) = 0"
    by (simp add: st elapsed_def)
  have hold: "fault_line_low (run ins ?s) \<and> flagSet (run ins ?s) \<noteq> 0 \<and>
      flagTrigTime (run ins ?s) = now ?s \<and>
      unat (elapsed (now (run ins ?s)) (now ?s)) = ticks ins" if "ticks ins < 2"
    using pulse_hold_run [of ?s ins] that st e0 by simp
  have stays: "flagTriggered (run xs ?s) \<noteq> 0" if "presses xs ?s = 0" for xs
    using flagTriggered_stays [of ?s xs] that st by simp
  have rel: "elapsed (now (run (ins @ [j]) ?s)) (now ?s) = 2 \<and>
      (flagSet (run (ins @ [j]) ?s) = 0) = (flagTriggered (run (ins @ [j]) ?s) \<noteq> 0) \<and>
      fault_line_released (run (ins @ [j]) ?s) = (flagTriggered (run (ins @ [j]) ?s) \<noteq> 0) \<and>
      fault_line_low (run (ins @ [j]) ?s) = (flagTriggered (run (ins @ [j]) ?s) = 0)"
    if t: "ticks ins = 1" and j: "fst j"
  proof -
    let ?m = "run ins ?s"
    from hold t have m: "fault_line_low ?m" "flagSet ?m \<noteq> 0" "flagTrigTime ?m = now ?s"
      "unat (elapsed (now ?m) (now ?s)) = 1"
      by simp_all
    from m(4) have "elapsed (now ?m) (now ?s) = 1"
      by (metis unat_1 word_unat_eq_iff)
    then have two: "elapsed (now (loop_body j ?m)) (flagTrigTime ?m) = 2"
      using j by (simp add: lb_now elapsed_def m(3))
    then have ge: "2 \<le> elapsed (now (loop_body j ?m)) (flagTrigTime ?m)"
      by simp
    from pulse_release [OF m(2) ge] m(1) two m(3) show ?thesis
      by (simp add: run_append)
  qed
  have rel': "flagSet (run (ins @ [j]) ?s) = 0 \<and> fault_line_released (run (ins @ [j]) ?s)"
    if t: "ticks ins = 1" and j: "fst j"
      and c: "fault_asserted j \<or> presses (ins @ [j]) ?s = 0"
  proof -
    have "flagTriggered (run (ins @ [j]) ?s) \<noteq> 0"
    proof (cases "fault_asserted j")
      case True
      then show ?thesis by (simp add: run_append lb_flagTriggered)
    next
      case False
      with c stays show ?thesis by blast
    qed
    with rel [OF t j] show ?thesis by simp
  qed
  from hold rel rel' stays show ?thesis
    by simp
qed

subsection \<open>With the pin read back\<close>

lemma and_BV_zero: "(x AND BV n = 0) = (\<not> bit x n)"
  by (simp add: BV_def and_exp_eq_0_iff_not_bit)

lemma fault_asserted_bit: "fault_asserted i = (\<not> bit (snd i) PINB4)"
  by (simp add: fault_asserted_def flagStateNow_def lnot_simps PIN_FLAG_def and_BV_zero PINB4_def)

lemma pressed_bit: "pressed i = (\<not> bit (snd i) PINB2)"
  by (simp add: pressed_def btnStateNow_def lnot_simps PIN_BUTTON_def and_BV_zero PINB2_def)

lemma fault_PINB_read:
  "fault_asserted (w, PINB_read s ext) = (fault_line_low s \<or> fault_asserted (w, ext))"
  by (simp add: fault_asserted_bit PINB_read_def PIN_FLAG_def bit_simps bit_BV bitno_defs)

lemma pressed_PINB_read: "pressed (w, PINB_read s ext) = pressed (w, ext)"
  by (simp add: pressed_bit PINB_read_def PIN_FLAG_def bit_simps bit_BV bitno_defs)

lemma samples_append:
  "samples (xs @ ys) s = samples xs s @ samples ys (run (samples xs s) s)"
  by (induction xs arbitrary: s) (simp_all add: pass_def)

lemma ticks_samples: "ticks (samples es s) = ticks es"
  by (induction es arbitrary: s) simp_all

lemma elapsed_step:
  assumes "unat (elapsed (now s) t) + (if fst i then 1 else 0) < 256"
  shows "unat (elapsed (now (loop_body i s)) t) = unat (elapsed (now s) t) + (if fst i then 1 else 0)"
proof -
  have "elapsed (now s + 1) t = elapsed (now s) t + 1"
    by (simp add: elapsed_def)
  with assms unat_Suc_eq [of "elapsed (now s) t"] show ?thesis
    by (cases "fst i") (simp_all add: lb_now)
qed

lemma released_stays:
  assumes "flagSet s = 0" "fault_line_released s" "list_all (\<lambda>e. \<not> fault_asserted e) es"
  shows "flagSet (run (samples es s) s) = 0 \<and> fault_line_released (run (samples es s) s)"
  using assms
proof (induction es arbitrary: s)
  case Nil
  then show ?case by simp
next
  case (Cons e es)
  let ?i = "(fst e, PINB_read s (snd e))"
  from Cons.prems(2) have "\<not> fault_line_low s"
    by (simp add: fault_line_low_def fault_line_released_def)
  with Cons.prems(3) have nf: "\<not> fault_asserted ?i"
    using fault_PINB_read [of "fst e" s "snd e"] by simp
  with Cons.prems(1) have np: "\<not> pulse_ends ?i s"
    by (simp add: lb_pulse_ends)
  from nf np Cons.prems(1,2)
  have "flagSet (loop_body ?i s) = 0" "fault_line_released (loop_body ?i s)"
    by (simp_all add: lb_flagSet lb_line_released)
  with Cons.IH [of "loop_body ?i s"] Cons.prems(3) show ?case
    by (simp add: pass_def)
qed

lemma pulse_end_exact:
  assumes "flagSet s \<noteq> 0" "fault_line_low s" "list_all (\<lambda>e. \<not> fault_asserted e) es"
    "es \<noteq> []" "unat (elapsed (now s) (flagTrigTime s)) + ticks es < 256"
  shows "(flagSet (run (samples es s) s) = 0) =
           (2 \<le> unat (elapsed (now s) (flagTrigTime s)) + ticks es) \<and>
         fault_line_released (run (samples es s) s) =
           (2 \<le> unat (elapsed (now s) (flagTrigTime s)) + ticks es) \<and>
         fault_line_low (run (samples es s) s) =
           (\<not> 2 \<le> unat (elapsed (now s) (flagTrigTime s)) + ticks es)"
  using assms
proof (induction es arbitrary: s)
  case Nil
  then show ?case by simp
next
  case (Cons e es)
  let ?i = "(fst e, PINB_read s (snd e))"
  let ?w = "if fst e then 1 else 0 :: nat"
  let ?s = "loop_body ?i s"
  let ?e = "unat (elapsed (now s) (flagTrigTime s))"
  from Cons.prems(3) have rest: "list_all (\<lambda>e. \<not> fault_asserted e) es"
    by simp
  have f: "fault_asserted ?i"
    using Cons.prems(2) fault_PINB_read [of "fst e" s "snd e"] by simp
  have t: "flagTrigTime ?s = flagTrigTime s"
    using Cons.prems(1) by (simp add: lb_flagTrigTime)
  from Cons.prems(5) have lt: "?e + (if fst ?i then 1 else 0) < 256"
    by simp
  have el: "unat (elapsed (now ?s) (flagTrigTime s)) = ?e + ?w"
    using elapsed_step [OF lt] by simp
  have r: "run (samples (e # es) s) s = run (samples es ?s) ?s"
    by (simp add: pass_def)
  show ?case
  proof (cases "2 \<le> ?e + ?w")
    case True
    then have "2 \<le> elapsed (now ?s) (flagTrigTime ?s)"
      by (simp add: word_le_nat_alt t el)
    with f Cons.prems(1) have "pulse_ends ?i s"
      by (simp add: lb_pulse_ends lb_flagTriggered)
    then have z: "flagSet ?s = 0" "fault_line_released ?s"
      by (simp_all add: lb_flagSet lb_line_released)
    from released_stays [OF z rest]
    have "flagSet (run (samples es ?s) ?s) = 0" "fault_line_released (run (samples es ?s) ?s)"
      by simp_all
    moreover from this(2) have "\<not> fault_line_low (run (samples es ?s) ?s)"
      by (simp add: fault_line_low_def fault_line_released_def)
    moreover from True have "2 \<le> ?e + ticks (e # es)"
      by simp
    ultimately show ?thesis
      unfolding r by blast
  next
    case False
    then have lt2: "?e + (if fst ?i then 1 else 0) < 2"
      by simp
    from pulse_hold_step [OF Cons.prems(1,2) lt2]
    have h: "flagSet ?s \<noteq> 0" "fault_line_low ?s" "flagTrigTime ?s = flagTrigTime s"
      by simp_all
    from h(2) have nr: "\<not> fault_line_released ?s"
      by (simp add: fault_line_low_def fault_line_released_def)
    show ?thesis
    proof (cases "es = []")
      case True
      with h nr False show ?thesis by simp
    next
      case ne: False
      from Cons.prems(5) el t
      have "unat (elapsed (now ?s) (flagTrigTime ?s)) + ticks es < 256"
        by simp
      from Cons.IH [OF h(1,2) rest ne this] el t show ?thesis
        unfolding r by (simp add: add.assoc)
    qed
  qed
qed


text \<open>
  Claim C3. Let a pulse start in pass \<open>e\<close>: the fault pin samples asserted and \<open>flagSet\<close>
  is clear, so \<open>flagTrigTime\<close> becomes the \<open>now\<close> of that pass. Then, whatever levels the
  outside presents afterwards (the load switch may release the fault flag at once, the
  button may be pressed), in every pass with fewer than 2 ticks elapsed the line is
  driven low, \<open>flagSet\<close> and \<open>flagTriggered\<close> are set and \<open>flagTrigTime\<close> is unchanged; in
  the first pass with 2 ticks elapsed \<open>flagSet\<close> is cleared and the line is released.
  \<open>flagTriggered\<close> stays set as long as no press is accepted after the start.
\<close>

theorem pulse_lasts_two_ticks:
  assumes "fault_asserted (fst e, PINB_read s (snd e))" "flagSet s = 0"
  shows
  "(ticks es < 2 \<longrightarrow>
      fault_line_low (run (samples (e # es) s) s) \<and>
      flagSet (run (samples (e # es) s) s) \<noteq> 0 \<and>
      flagTriggered (run (samples (e # es) s) s) \<noteq> 0 \<and>
      flagTrigTime (run (samples (e # es) s) s) = now (pass e s) \<and>
      unat (elapsed (now (run (samples (e # es) s) s)) (now (pass e s))) = ticks es) \<and>
   (ticks es = 1 \<and> fst j \<longrightarrow>
      elapsed (now (run (samples (e # es @ [j]) s) s)) (now (pass e s)) = 2 \<and>
      flagSet (run (samples (e # es @ [j]) s) s) = 0 \<and>
      fault_line_released (run (samples (e # es @ [j]) s) s) \<and>
      \<not> fault_line_low (run (samples (e # es @ [j]) s) s)) \<and>
   (presses (samples es (pass e s)) (pass e s) = 0 \<longrightarrow>
      flagTriggered (run (samples (e # es) s) s) \<noteq> 0)"
proof -
  let ?i = "(fst e, PINB_read s (snd e))"
  let ?s = "loop_body ?i s"
  let ?ins = "samples es ?s"
  let ?m = "run ?ins ?s"
  let ?j = "(fst j, PINB_read ?m (snd j))"
  have r: "run (samples (e # es) s) s = ?m"
    by (simp add: pass_def)
  have r2: "run (samples (e # es @ [j]) s) s = run (?i # ?ins @ [?j]) s"
    by (simp add: samples_append pass_def)
  have r3: "run (?i # ?ins) s = ?m"
    by simp
  have tk: "ticks ?ins = ticks es"
    by (rule ticks_samples)
  have fj: "fst ?j = fst j"
    by simp
  note P = pulse_any_samples [OF assms, of ?ins ?j, unfolded r3 tk fj]
  have hold: "fault_line_low ?m \<and> flagSet ?m \<noteq> 0 \<and>
      flagTrigTime ?m = now ?s \<and> unat (elapsed (now ?m) (now ?s)) = ticks es"
    if "ticks es < 2"
    using P that by blast
  have trig: "flagTriggered ?m \<noteq> 0" if lt: "ticks es < 2"
  proof (cases es rule: rev_cases)
    case Nil
    with pulse_start(4) [OF assms] show ?thesis
      by simp
  next
    case (snoc xs x)
    let ?p = "run (samples xs ?s) ?s"
    let ?x = "(fst x, PINB_read ?p (snd x))"
    have m: "?m = loop_body ?x ?p"
      by (simp add: snoc samples_append run_append pass_def)
    from lt snoc have "ticks (samples xs ?s) < 2"
      by (simp add: ticks_append ticks_samples)
    with pulse_any_samples [OF assms, of "samples xs ?s"]
    have "fault_line_low ?p"
      by simp
    then have "fault_asserted ?x"
      using fault_PINB_read [of "fst x" ?p "snd x"] by simp
    then have "flagTriggered (loop_body ?x ?p) \<noteq> 0"
      by (simp add: lb_flagTriggered)
    then show ?thesis
      unfolding m .
  qed
  have rel: "elapsed (now (run (?i # ?ins @ [?j]) s)) (now ?s) = 2 \<and>
      flagSet (run (?i # ?ins @ [?j]) s) = 0 \<and>
      fault_line_released (run (?i # ?ins @ [?j]) s) \<and>
      \<not> fault_line_low (run (?i # ?ins @ [?j]) s)"
    if t: "ticks es = 1" and j: "fst j"
  proof -
    from hold t have "fault_line_low ?m"
      by simp
    then have f: "fault_asserted ?j"
      using fault_PINB_read [of "fst j" ?m "snd j"] by simp
    from P t j f
    have c: "elapsed (now (run (?i # ?ins @ [?j]) s)) (now ?s) = 2 \<and>
      flagSet (run (?i # ?ins @ [?j]) s) = 0 \<and>
      fault_line_released (run (?i # ?ins @ [?j]) s)"
      by blast
    then have "\<not> fault_line_low (run (?i # ?ins @ [?j]) s)"
      by (simp add: fault_line_low_def fault_line_released_def)
    with c show ?thesis by blast
  qed
  have stays: "flagTriggered ?m \<noteq> 0" if "presses ?ins ?s = 0"
    using P that by blast
  from hold trig rel stays show ?thesis
    unfolding pass_def r r2 by blast
qed

text \<open>
  Scenario C: the fault flag is asserted at tick 0 and released at tick 1, where the
  button is pressed as well; the press is accepted, the line is still low and
  \<open>flagTriggered\<close> set after that pass, and the line is released at tick 2. With no
  press, \<open>flagTriggered\<close> is still set at tick 2.
\<close>

theorem pulse_lasts_two_ticks_witness:
  "fault_asserted (fst fault_now, PINB_read reset_state (snd fault_now)) \<and>
   flagSet reset_state = 0 \<and>
   \<not> fault_asserted press_tick \<and> ticks [press_tick] = 1 \<and> fst idle_tick \<and>
   accepted press_tick (pass fault_now reset_state) \<and>
   fault_line_low (run (samples (fault_now # [press_tick]) reset_state) reset_state) \<and>
   flagTriggered (run (samples (fault_now # [press_tick]) reset_state) reset_state) \<noteq> 0 \<and>
   flagSet (run (samples (fault_now # [press_tick] @ [idle_tick]) reset_state)
     reset_state) = 0 \<and>
   fault_line_released (run (samples (fault_now # [press_tick] @ [idle_tick]) reset_state)
     reset_state) \<and>
   presses (samples [idle_tick, idle_tick] (pass fault_now reset_state))
     (pass fault_now reset_state) = 0 \<and>
   flagTriggered (run (samples (fault_now # [idle_tick, idle_tick]) reset_state)
     reset_state) \<noteq> 0"
proof -
  have h1: "fault_asserted (fst fault_now, PINB_read reset_state (snd fault_now))"
    by code_simp
  have h2: "flagSet reset_state = 0"
    by (simp add: reset_state_def init_fields)
  have h3: "\<not> fault_asserted press_tick \<and> ticks [press_tick] = 1 \<and> fst idle_tick"
    by (simp add: input_simps)
  have h4: "accepted press_tick (pass fault_now reset_state)"
    by code_simp
  have h5: "presses (samples [idle_tick, idle_tick] (pass fault_now reset_state))
     (pass fault_now reset_state) = 0"
    by code_simp
  from pulse_lasts_two_ticks [OF h1 h2, of "[press_tick]" idle_tick]
    pulse_lasts_two_ticks [OF h1 h2, of "[idle_tick, idle_tick]" idle_tick] h1 h2 h3 h4 h5
  show ?thesis
    by simp
qed

section \<open>Both timing tests across the wrap of the tick counter\<close>

text \<open>
  Claim C8. Both timing tests, the debounce test of line 134 and the pulse test of line
  153, compare \<open>elapsed\<close>, the subtraction modulo 256, which counts an interval of fewer
  than 128 ticks exactly, wherever the counter wraps. So with the button released and
  \<open>debounceOk\<close> clear, after one or more passes \<open>debounceOk\<close> is set exactly when the
  ticks since the last pressed sample are at least 3. And a pass that finds \<open>flagSet\<close>
  set and leaves \<open>flagTriggered\<close> set clears \<open>flagSet\<close> exactly when \<open>elapsed\<close> since
  \<open>flagTrigTime\<close> is at least 2; so with a pulse active and the fault flag released by the
  load switch, after one or more passes the line is released and \<open>flagSet\<close> clear exactly
  when the ticks since the start of the pulse are at least 2. Both hold as long as the
  ticks are fewer than 128.
\<close>

theorem elapsed_modular:
  "unat (elapsed n t) = (unat n + 256 - unat t) mod 256 \<and>
   (k < 128 \<longrightarrow> unat (elapsed (t + of_nat k) t) = k) \<and>
   (\<not> pressed i \<longrightarrow>
      debounceOk (loop_body i s) =
        (if 3 \<le> elapsed (now (loop_body i s)) (btnTime s) then 1 else debounceOk s)) \<and>
   (debounceOk s = 0 \<and> list_all (\<lambda>i. \<not> pressed i) ins \<and> ins \<noteq> [] \<and>
    unat (elapsed (now s) (btnTime s)) + ticks ins < 128 \<longrightarrow>
      (debounceOk (run ins s) \<noteq> 0) = (3 \<le> unat (elapsed (now s) (btnTime s)) + ticks ins)) \<and>
   (flagSet v \<noteq> 0 \<and> flagTriggered (loop_body j v) \<noteq> 0 \<longrightarrow>
      (flagSet (loop_body j v) = 0) = (2 \<le> elapsed (now (loop_body j v)) (flagTrigTime v)) \<and>
      (flagSet (loop_body j v) = 0) = (pulse_end_step (fault_step (flagStateNow (snd j))
         (after_button j v)) \<noteq> fault_step (flagStateNow (snd j)) (after_button j v))) \<and>
   (flagSet u \<noteq> 0 \<and> fault_line_low u \<and> list_all (\<lambda>e. \<not> fault_asserted e) es \<and> es \<noteq> [] \<and>
    unat (elapsed (now u) (flagTrigTime u)) + ticks es < 128 \<longrightarrow>
      (flagSet (run (samples es u) u) = 0) =
         (2 \<le> unat (elapsed (now u) (flagTrigTime u)) + ticks es) \<and>
      fault_line_released (run (samples es u) u) =
         (2 \<le> unat (elapsed (now u) (flagTrigTime u)) + ticks es))"
proof -
  have a: "k < 128 \<longrightarrow> unat (elapsed (t + of_nat k) t) = k"
    using elapsed_count(2) [of k t] by simp
  have b: "\<not> pressed i \<longrightarrow>
      debounceOk (loop_body i s) =
        (if 3 \<le> elapsed (now (loop_body i s)) (btnTime s) then 1 else debounceOk s)"
    by (simp add: lb_debounceOk)
  have c: "debounceOk s = 0 \<and> list_all (\<lambda>i. \<not> pressed i) ins \<and> ins \<noteq> [] \<and>
    unat (elapsed (now s) (btnTime s)) + ticks ins < 128 \<longrightarrow>
      (debounceOk (run ins s) \<noteq> 0) = (3 \<le> unat (elapsed (now s) (btnTime s)) + ticks ins)"
    using debounce_ready_exact [of s ins] by simp
  have d: "(flagSet (loop_body j v) = 0) = (2 \<le> elapsed (now (loop_body j v)) (flagTrigTime v)) \<and>
      (flagSet (loop_body j v) = 0) = (pulse_end_step (fault_step (flagStateNow (snd j))
         (after_button j v)) \<noteq> fault_step (flagStateNow (snd j)) (after_button j v))"
    if h: "flagSet v \<noteq> 0" "flagTriggered (loop_body j v) \<noteq> 0"
  proof -
    let ?m = "fault_step (flagStateNow (snd j)) (after_button j v)"
    have tt: "flagTrigTime (loop_body j v) = flagTrigTime v"
      using h(1) by (simp add: lb_flagTrigTime)
    have pe: "pulse_ends j v = (2 \<le> elapsed (now (loop_body j v)) (flagTrigTime v))"
      using h by (simp add: lb_pulse_ends tt)
    have fs: "(flagSet (loop_body j v) = 0) = pulse_ends j v"
      using h(1) by (simp add: lb_flagSet)
    have fm: "flagSet ?m \<noteq> 0"
      using h(1) by (simp add: fault_step_def macro_defs Let_def ab_rest)
    have ne: "(FLAGCLEAR ?m)\<lparr>flagSet := 0\<rparr> \<noteq> ?m"
    proof
      assume "(FLAGCLEAR ?m)\<lparr>flagSet := 0\<rparr> = ?m"
      then have "flagSet ((FLAGCLEAR ?m)\<lparr>flagSet := 0\<rparr>) = flagSet ?m"
        by (rule arg_cong)
      with fm show False by simp
    qed
    have "(pulse_end_step ?m \<noteq> ?m) = pulse_ends j v"
      using ne by (simp add: pulse_end_step_def pulse_ends_def Let_def)
    with pe fs show ?thesis by simp
  qed
  have e: "flagSet u \<noteq> 0 \<and> fault_line_low u \<and> list_all (\<lambda>e. \<not> fault_asserted e) es \<and>
    es \<noteq> [] \<and> unat (elapsed (now u) (flagTrigTime u)) + ticks es < 128 \<longrightarrow>
      (flagSet (run (samples es u) u) = 0) =
         (2 \<le> unat (elapsed (now u) (flagTrigTime u)) + ticks es) \<and>
      fault_line_released (run (samples es u) u) =
         (2 \<le> unat (elapsed (now u) (flagTrigTime u)) + ticks es)"
    using pulse_end_exact [of u es] by simp
  from elapsed_unat [of n t] a b c d e show ?thesis
    by blast
qed

text \<open>
  Scenario D for the button: last pressed at tick 254. At ticks 255 and 0 \<open>debounceOk\<close>
  is still clear; it is set at tick 1, three ticks after 254, and stays set at tick 2.
  And for the pulse: started at tick 255, the line is still low at tick 0 and is released
  at tick 1, two ticks after 255.
\<close>

theorem elapsed_modular_witness:
  "btnTime scenario_D_state = 254 \<and> debounceOk scenario_D_state = 0 \<and>
   (4 :: nat) < 128 \<and> unat (elapsed (254 + of_nat 4) 254) = 4 \<and>
   \<not> pressed idle_tick \<and>
   list_all (\<lambda>i. \<not> pressed i) (idle_ticks 3) \<and> idle_ticks 3 \<noteq> [] \<and>
   unat (elapsed (now scenario_D_state) (btnTime scenario_D_state)) + ticks (idle_ticks 3) < 128 \<and>
   now (run (idle_ticks 1) scenario_D_state) = 255 \<and>
   debounceOk (run (idle_ticks 1) scenario_D_state) = 0 \<and>
   now (run (idle_ticks 2) scenario_D_state) = 0 \<and>
   debounceOk (run (idle_ticks 2) scenario_D_state) = 0 \<and>
   now (run (idle_ticks 3) scenario_D_state) = 1 \<and>
   debounceOk (run (idle_ticks 3) scenario_D_state) \<noteq> 0 \<and>
   now (run (idle_ticks 4) scenario_D_state) = 2 \<and>
   debounceOk (run (idle_ticks 4) scenario_D_state) \<noteq> 0 \<and>
   now scenario_D_pulse_state = 255 \<and> flagTrigTime scenario_D_pulse_state = 255 \<and>
   flagSet scenario_D_pulse_state \<noteq> 0 \<and> fault_line_low scenario_D_pulse_state \<and>
   list_all (\<lambda>e. \<not> fault_asserted e) (idle_ticks 2) \<and> idle_ticks 2 \<noteq> [] \<and>
   now (run (samples (idle_ticks 1) scenario_D_pulse_state) scenario_D_pulse_state) = 0 \<and>
   flagSet (run (samples (idle_ticks 1) scenario_D_pulse_state) scenario_D_pulse_state) \<noteq> 0 \<and>
   fault_line_low (run (samples (idle_ticks 1) scenario_D_pulse_state)
     scenario_D_pulse_state) \<and>
   now (run (samples (idle_ticks 2) scenario_D_pulse_state) scenario_D_pulse_state) = 1 \<and>
   flagSet (run (samples (idle_ticks 2) scenario_D_pulse_state) scenario_D_pulse_state) = 0 \<and>
   fault_line_released (run (samples (idle_ticks 2) scenario_D_pulse_state)
     scenario_D_pulse_state)"
proof -
  let ?v = "run (samples (idle_ticks 1) scenario_D_pulse_state) scenario_D_pulse_state"
  have h1: "btnTime scenario_D_state = 254 \<and> debounceOk scenario_D_state = 0 \<and>
      now scenario_D_state = 254"
    by (simp add: scenario_D_state_def)
  have h2: "\<not> pressed idle_tick"
    by (simp add: input_simps)
  have h3: "idle_ticks 3 \<noteq> [] \<and> idle_ticks 2 \<noteq> []"
    by (simp add: idle_ticks_def)
  have h4: "unat (elapsed (now scenario_D_state) (btnTime scenario_D_state)) +
      ticks (idle_ticks 3) < 128"
    by (simp add: h1 elapsed_def ticks_idle_ticks)
  have h5: "now (run (idle_ticks 1) scenario_D_state) = 255 \<and>
      debounceOk (run (idle_ticks 1) scenario_D_state) = 0 \<and>
      now (run (idle_ticks 2) scenario_D_state) = 0 \<and>
      debounceOk (run (idle_ticks 2) scenario_D_state) = 0 \<and>
      now (run (idle_ticks 3) scenario_D_state) = 1 \<and>
      now (run (idle_ticks 4) scenario_D_state) = 2 \<and>
      debounceOk (run (idle_ticks 4) scenario_D_state) \<noteq> 0"
    by code_simp
  have h6: "now scenario_D_pulse_state = 255 \<and> flagTrigTime scenario_D_pulse_state = 255 \<and>
      flagSet scenario_D_pulse_state \<noteq> 0 \<and> fault_line_low scenario_D_pulse_state"
    by code_simp
  have h7: "now ?v = 0 \<and> flagSet ?v \<noteq> 0 \<and> fault_line_low ?v \<and>
      now (run (samples (idle_ticks 2) scenario_D_pulse_state) scenario_D_pulse_state) = 1"
    by code_simp
  have h8: "unat (elapsed (now scenario_D_pulse_state) (flagTrigTime scenario_D_pulse_state)) +
      ticks (idle_ticks 2) < 128 \<and>
      2 \<le> unat (elapsed (now scenario_D_pulse_state) (flagTrigTime scenario_D_pulse_state)) +
      ticks (idle_ticks 2)"
    using h6 by (simp add: elapsed_def ticks_idle_ticks)
  note T = elapsed_modular [where k = 4 and t = 254 and i = idle_tick
      and s = scenario_D_state and ins = "idle_ticks 3"
      and u = scenario_D_pulse_state and es = "idle_ticks 2"]
  from T h1 h2 h3 h4 idle_ticks_released [of 3]
  have d: "unat (elapsed (254 + of_nat 4) (254 :: u8)) = 4 \<and>
      debounceOk (run (idle_ticks 3) scenario_D_state) \<noteq> 0"
    by (simp add: elapsed_def ticks_idle_ticks)
  from T h6 h3 h8 idle_ticks_no_fault [of 2]
  have p: "flagSet (run (samples (idle_ticks 2) scenario_D_pulse_state)
        scenario_D_pulse_state) = 0 \<and>
      fault_line_released (run (samples (idle_ticks 2) scenario_D_pulse_state)
        scenario_D_pulse_state)"
    by blast
  from d p h1 h2 h3 h4 h5 h6 h7 idle_ticks_released [of 3] idle_ticks_no_fault [of 2]
  show ?thesis
    by simp
qed

section \<open>A fault that stays asserted\<close>

lemma held_step:
  assumes "c < 3" "flagSet s = (if c = 0 then 0 else 1)"
    "c \<noteq> 0 \<longrightarrow> flagTrigTime s = now s - of_nat (c - 1) \<and> fault_line_low s"
    "fst i" "fault_asserted i"
  shows "flagSet (loop_body i s) = (if Suc c mod 3 = 0 then 0 else 1) \<and>
         (Suc c mod 3 \<noteq> 0 \<longrightarrow>
            flagTrigTime (loop_body i s) = now (loop_body i s) - of_nat (Suc c mod 3 - 1) \<and>
            fault_line_low (loop_body i s)) \<and>
         (Suc c mod 3 = 0 \<longrightarrow> fault_line_released (loop_body i s))"
proof -
  have n: "now (loop_body i s) = now s + 1"
    using assms(4) by (simp add: lb_now)
  have ft: "flagTriggered (loop_body i s) \<noteq> 0"
    using assms(5) by (simp add: lb_flagTriggered)
  from assms(1) consider "c = 0" | "c = 1" | "c = 2"
    by linarith
  then show ?thesis
  proof cases
    case 1
    with assms(2) have "flagSet s = 0" by simp
    from pulse_start [OF assms(5) this] 1 show ?thesis by simp
  next
    case 2
    with assms(2,3) have s: "flagSet s = 1" "flagTrigTime s = now s" "fault_line_low s"
      by simp_all
    have t: "flagTrigTime (loop_body i s) = now s"
      using s by (simp add: lb_flagTrigTime)
    have "\<not> pulse_ends i s"
      by (simp add: lb_pulse_ends t n elapsed_def word_le_nat_alt)
    with s t n 2 assms(5) show ?thesis
      by (simp add: lb_flagSet lb_line_low)
  next
    case 3
    with assms(2,3) have s: "flagSet s = 1" "flagTrigTime s = now s - 1" "fault_line_low s"
      by simp_all
    have t: "flagTrigTime (loop_body i s) = now s - 1"
      using s by (simp add: lb_flagTrigTime)
    have "pulse_ends i s"
      using ft s(1) by (simp add: lb_pulse_ends t n elapsed_def)
    with 3 show ?thesis
      by (simp add: lb_flagSet lb_line_released)
  qed
qed

lemma held_run:
  assumes "c < 3" "flagSet s = (if c = 0 then 0 else 1)"
    "c \<noteq> 0 \<longrightarrow> flagTrigTime s = now s - of_nat (c - 1) \<and> fault_line_low s"
    "list_all (\<lambda>i. fst i \<and> fault_asserted i) ins"
    "c = 0 \<longrightarrow> ins \<noteq> []"
  shows "flagSet (run ins s) = (if (c + length ins) mod 3 = 0 then 0 else 1) \<and>
         ((c + length ins) mod 3 \<noteq> 0 \<longrightarrow>
            flagTrigTime (run ins s) = now (run ins s) - of_nat ((c + length ins) mod 3 - 1) \<and>
            fault_line_low (run ins s)) \<and>
         ((c + length ins) mod 3 = 0 \<longrightarrow> fault_line_released (run ins s))"
  using assms
proof (induction ins arbitrary: c s)
  case Nil
  then show ?case by simp
next
  case (Cons i ins)
  from Cons.prems(4) have i: "fst i" "fault_asserted i"
    and rest: "list_all (\<lambda>i. fst i \<and> fault_asserted i) ins"
    by simp_all
  note st = held_step [OF Cons.prems(1,2,3) i]
  have m: "(Suc c mod 3 + length ins) mod 3 = (c + length (i # ins)) mod 3"
    by (simp add: mod_add_left_eq)
  show ?case
  proof (cases "ins = []")
    case True
    with st show ?thesis by simp
  next
    case False
    have "Suc c mod 3 < 3" by simp
    from Cons.IH [OF this _ _ rest, of "loop_body i s"] st False
    show ?thesis
      unfolding m by simp
  qed
qed

lemma held_now:
  assumes "list_all (\<lambda>i. fst i \<and> fault_asserted i) ins"
  shows "now (run ins s) = now s + of_nat (length ins)"
  using assms by (induction ins arbitrary: s) (simp_all add: lb_now)

lemma held_red:
  assumes "list_all (\<lambda>i. fst i \<and> fault_asserted i) ins" "ins \<noteq> []"
  shows "led (run ins s) = LED_RED \<and> powerOn (run ins s) = 0 \<and> \<not> power_active (run ins s)"
  using assms
proof (induction ins arbitrary: s)
  case Nil
  then show ?case by simp
next
  case (Cons i ins)
  show ?case
  proof (cases "ins = []")
    case True
    with Cons.prems show ?thesis
      by (simp add: lb_led lb_power lb_powerOn lb_flagTriggered)
  next
    case False
    with Cons show ?thesis by simp
  qed
qed

lemma pulse_start_time:
  assumes "n mod 3 \<noteq> 0"
  shows "(of_nat n :: u8) - of_nat (n mod 3 - 1) = of_nat (3 * (n div 3) + 1)"
proof -
  have "n = (3 * (n div 3) + 1) + (n mod 3 - 1)"
    using assms by presburger
  then have "(of_nat n :: u8) = of_nat (3 * (n div 3) + 1) + of_nat (n mod 3 - 1)"
    by (metis of_nat_add)
  then show ?thesis
    by simp
qed

text \<open>
  Claim C4, as stated, fails in scenario B: the power is on, the fault flag is asserted
  from tick 0 and the pulse starts at tick 0. The pass at tick 2 ends the pulse and
  leaves the line released with \<open>flagSet\<close> clear; the new pulse starts in the pass at
  tick 3, with \<open>flagTrigTime = 3\<close>.
\<close>

theorem pulse_period_counterexample:
  "powerOn (run (take 1 scenario_B) reset_state) \<noteq> 0 \<and>
   now (run (take 2 scenario_B) reset_state) = 0 \<and>
   flagSet (run (take 2 scenario_B) reset_state) \<noteq> 0 \<and>
   flagTrigTime (run (take 2 scenario_B) reset_state) = 0 \<and>
   now (run (take 4 scenario_B) reset_state) = 2 \<and>
   flagSet (run (take 4 scenario_B) reset_state) = 0 \<and>
   fault_line_released (run (take 4 scenario_B) reset_state) \<and>
   \<not> fault_line_low (run (take 4 scenario_B) reset_state) \<and>
   now (run scenario_B reset_state) = 3 \<and>
   flagSet (run scenario_B reset_state) \<noteq> 0 \<and>
   flagTrigTime (run scenario_B reset_state) = 3"
  by code_simp

text \<open>
  Claim C4, amended. Let the fault flag sample asserted in every pass, one pass per tick,
  starting with no pulse active. Then the LED is red and \<open>powerOn\<close> clear after every
  pass, and the pulse repeats with a period of 3 ticks: after \<open>n\<close> passes with \<open>n\<close> not a
  multiple of 3 the line is driven low by a pulse that started at pass \<open>3 * (n div 3) + 1\<close>;
  after a multiple of 3 passes the pulse has just ended, the line is released and
  \<open>flagSet\<close> is clear, and the next pass starts the next pulse.
\<close>

theorem pulse_repeats_every_three:
  assumes "list_all (\<lambda>i. fst i \<and> fault_asserted i) ins" "ins \<noteq> []" "flagSet s = 0"
  shows "now (run ins s) = now s + of_nat (length ins) \<and>
         led (run ins s) = LED_RED \<and> powerOn (run ins s) = 0 \<and>
         (length ins mod 3 \<noteq> 0 \<longrightarrow>
            flagSet (run ins s) \<noteq> 0 \<and> fault_line_low (run ins s) \<and>
            flagTrigTime (run ins s) = now s + of_nat (3 * (length ins div 3) + 1)) \<and>
         (length ins mod 3 = 0 \<longrightarrow>
            flagSet (run ins s) = 0 \<and> fault_line_released (run ins s))"
proof -
  have n: "now (run ins s) = now s + of_nat (length ins)"
    by (rule held_now [OF assms(1)])
  from held_run [of 0 s ins] assms
  have h: "flagSet (run ins s) = (if length ins mod 3 = 0 then 0 else 1)"
    "length ins mod 3 \<noteq> 0 \<longrightarrow>
       flagTrigTime (run ins s) = now (run ins s) - of_nat (length ins mod 3 - 1) \<and>
       fault_line_low (run ins s)"
    "length ins mod 3 = 0 \<longrightarrow> fault_line_released (run ins s)"
    by simp_all
  have t: "flagTrigTime (run ins s) = now s + of_nat (3 * (length ins div 3) + 1)"
    if "length ins mod 3 \<noteq> 0"
  proof -
    from h(2) that n
    have "flagTrigTime (run ins s) = now s + (of_nat (length ins) - of_nat (length ins mod 3 - 1))"
      by simp
    with pulse_start_time [OF that] show ?thesis
      by simp
  qed
  from n h t held_red [OF assms(1,2), of s] show ?thesis
    by simp
qed

text \<open>
  The power is on at tick 0 and the fault flag is asserted from tick 1: the first pulse
  starts at tick 1 and has ended at tick 3, the second starts at tick 4.
\<close>

theorem pulse_repeats_every_three_witness:
  "list_all (\<lambda>i. fst i \<and> fault_asserted i) (replicate 3 fault_tick) \<and>
   list_all (\<lambda>i. fst i \<and> fault_asserted i) (replicate 4 fault_tick) \<and>
   powerOn (loop_body press_now reset_state) \<noteq> 0 \<and>
   flagSet (loop_body press_now reset_state) = 0 \<and>
   flagSet (run (replicate 3 fault_tick) (loop_body press_now reset_state)) = 0 \<and>
   fault_line_released (run (replicate 3 fault_tick) (loop_body press_now reset_state)) \<and>
   now (run (replicate 3 fault_tick) (loop_body press_now reset_state)) = 3 \<and>
   flagSet (run (replicate 4 fault_tick) (loop_body press_now reset_state)) \<noteq> 0 \<and>
   fault_line_low (run (replicate 4 fault_tick) (loop_body press_now reset_state)) \<and>
   flagTrigTime (run (replicate 4 fault_tick) (loop_body press_now reset_state)) = 4 \<and>
   led (run (replicate 4 fault_tick) (loop_body press_now reset_state)) = LED_RED \<and>
   powerOn (run (replicate 4 fault_tick) (loop_body press_now reset_state)) = 0"
proof -
  let ?s = "loop_body press_now reset_state"
  have h1: "list_all (\<lambda>i. fst i \<and> fault_asserted i) (replicate n fault_tick)" for n
    by (simp add: list_all_length input_simps)
  have h2: "powerOn ?s \<noteq> 0 \<and> flagSet ?s = 0 \<and> now ?s = 0"
    by code_simp
  have h3: "replicate 3 fault_tick \<noteq> [] \<and> replicate 4 fault_tick \<noteq> []"
    by (simp add: eval_nat_numeral)
  from pulse_repeats_every_three [of "replicate 3 fault_tick" ?s] h1 [of 3] h2 h3
  have a: "now (run (replicate 3 fault_tick) ?s) = 3 \<and>
      flagSet (run (replicate 3 fault_tick) ?s) = 0 \<and>
      fault_line_released (run (replicate 3 fault_tick) ?s)"
    by simp
  from pulse_repeats_every_three [of "replicate 4 fault_tick" ?s] h1 [of 4] h2 h3
  have b: "led (run (replicate 4 fault_tick) ?s) = LED_RED \<and>
      powerOn (run (replicate 4 fault_tick) ?s) = 0 \<and>
      flagSet (run (replicate 4 fault_tick) ?s) \<noteq> 0 \<and>
      fault_line_low (run (replicate 4 fault_tick) ?s) \<and>
      flagTrigTime (run (replicate 4 fault_tick) ?s) = 4"
    by simp
  from a b h1 [of 3] h1 [of 4] h2 show ?thesis
    by blast
qed

section \<open>The release of the fault line needs the latch\<close>





end
